theory Spec2Isabelle
  imports Main "HOL-Library.AList"
begin

section \<open>Values, callbacks and the subscription registry\<close>

text \<open>
  The reactivity module keeps three module-level tables: \<open>targetToKeysToCallbacks\<close>
  (a WeakMap from a target to a Map from a key to a Set of callbacks),
  \<open>callbacksToTargets\<close> (a WeakMap from a callback to a Set of targets) and
  \<open>reactiveCache\<close> (a WeakMap from a target to a WeakMap from a callback to a proxy).
  A JavaScript Map and Set iterate in insertion order, so they are association lists and
  duplicate-free lists here; objects are addresses into a heap and callbacks are function
  identities.
\<close>

type_synonym addr = nat
type_synonym callback = nat

datatype symbol = TARGET | SKIP | KEYCHANGES | TO_STRING_TAG | ITERATOR | UserSymbol nat

text \<open>
  The functions \<open>rawTypeToFuncHandlers\<close> makes for a view of a collection:
  \<open>makeKeyObserver(methodName)\<close>, \<open>delegateAndNotify(setterName, getterName)\<close>,
  \<open>makeIteratorObserver(methodName)\<close>, \<open>makeForEachObserver\<close>, \<open>makeClearNotifier\<close>, and
  the getter \<open>size\<close>.
\<close>

datatype special =
    KeyObserver string | DelegateAndNotify string string | IteratorObserver string
  | ForEachObserver | ClearNotifier | SizeGetter

text \<open>
  JavaScript values. Numbers are the integers and \<open>NaN\<close>, the one number on which
  \<open>===\<close> and the key equality of Map and Set disagree. \<open>Fun\<close> is a function of the
  caller's, \<open>Handler target callback s\<close> the function \<open>s\<close> made for the view of
  \<open>target\<close> under \<open>callback\<close>, and \<open>Builtin p name\<close> the function that the built-in
  prototype \<open>p.prototype\<close> holds at \<open>name\<close>.
\<close>

datatype val =
    Undefined | Null | Bool bool | Num int | NaN | Str string
  | Sym symbol | Fun callback | Ref addr
  | Handler addr callback special
  | Builtin string string

type_synonym keymap = "(val \<times> callback list) list"

text \<open>
  An own property with the two attributes the \<open>get\<close> trap inspects. Own properties are
  data properties; objects are extensible, and the prototype of an object is the built-in
  prototype of its kind.
\<close>

record property =
  pvalue :: val
  writable :: bool
  configurable :: bool

datatype kind = KObject | KArray | KSet | KMap | KWeakMap | KDate | KPromise

text \<open>
  A heap object: its kind, its own properties in creation order and, for a Set, Map or
  WeakMap, its entries in insertion order (a Set stores each element as key and value).
\<close>

record obj =
  kind :: kind
  props :: "(val \<times> property) list"
  entries :: "(val \<times> val) list"

text \<open>
  \<open>new Proxy(target, handler)\<close>: the handler is \<open>basicProxyHandler(callback)\<close> or
  \<open>collectionsProxyHandler(target, callback, targetRawType)\<close>.
\<close>

datatype handler = BasicHandler | CollectionsHandler string

datatype cell = Raw obj | Proxy addr callback handler

record world =
  heap :: "cell list"
  targetToKeysToCallbacks :: "(addr \<times> keymap) list"
  callbacksToTargets :: "(callback \<times> addr list) list"
  reactiveCache :: "(addr \<times> (callback \<times> addr) list) list"

text \<open>\<open>Set.prototype.add\<close>: a present element keeps its place, a new one goes last.\<close>

definition set_add :: "'a \<Rightarrow> 'a list \<Rightarrow> 'a list" where
  "set_add x xs = (if x \<in> set xs then xs else xs @ [x])"

definition get_or :: "'v \<Rightarrow> ('k \<times> 'v) list \<Rightarrow> 'k \<Rightarrow> 'v" where
  "get_or d al k = (case map_of al k of None \<Rightarrow> d | Some v \<Rightarrow> v)"

definition observeTargetKey :: "addr \<Rightarrow> val \<Rightarrow> callback \<Rightarrow> world \<Rightarrow> world" where
  "observeTargetKey target key callback w =
     (let keyToCallbacks = get_or [] (targetToKeysToCallbacks w) target;
          callbacks = get_or [] keyToCallbacks key;
          targets = get_or [] (callbacksToTargets w) callback
      in w\<lparr>targetToKeysToCallbacks :=
               AList.update target
                 (AList.update key (set_add callback callbacks) keyToCallbacks)
                 (targetToKeysToCallbacks w),
             callbacksToTargets :=
               AList.update callback (set_add target targets) (callbacksToTargets w)\<rparr>)"

text \<open>The inner loop of \<open>clearReactivesForCallback\<close>, for one target.\<close>

definition clearTarget ::
  "callback \<Rightarrow> addr \<Rightarrow> (addr \<times> keymap) list \<Rightarrow> (addr \<times> keymap) list" where
  "clearTarget callback target t2k =
     (case map_of t2k target of
        None \<Rightarrow> t2k
      | Some observedKeys \<Rightarrow>
          AList.update target
            (map (\<lambda>(k, callbacks). (k, removeAll callback callbacks)) observedKeys) t2k)"

definition clearReactivesForCallback :: "callback \<Rightarrow> world \<Rightarrow> world" where
  "clearReactivesForCallback callback w =
     (case map_of (callbacksToTargets w) callback of
        None \<Rightarrow> w
      | Some targetsToClear \<Rightarrow>
          w\<lparr>targetToKeysToCallbacks :=
               fold (clearTarget callback) targetsToClear (targetToKeysToCallbacks w),
             callbacksToTargets := AList.update callback [] (callbacksToTargets w)\<rparr>)"

text \<open>
  A callback is user code: \<open>body callback\<close> is the effect of running it on the heap and
  the tables (it may read through its views and so subscribe again, or write). The trace
  is a ghost record of the calls made: it has no counterpart in the source and no
  function reads it. \<open>Called callback w\<close> records the world in which the callback was entered.
\<close>

datatype event = Notified addr val | Called callback world

type_synonym bodies = "callback \<Rightarrow> world \<Rightarrow> world"
type_synonym state = "world \<times> event list"

text \<open>The loop of \<open>notifyReactives\<close> over the copy \<open>[...callbacks]\<close>.\<close>

fun notifyLoop :: "bodies \<Rightarrow> callback list \<Rightarrow> state \<Rightarrow> state" where
  "notifyLoop body [] st = st"
| "notifyLoop body (callback # rest) (w, tr) =
     (let w1 = clearReactivesForCallback callback w
      in notifyLoop body rest (body callback w1, tr @ [Called callback w1]))"

definition notifyReactives :: "bodies \<Rightarrow> addr \<Rightarrow> val \<Rightarrow> state \<Rightarrow> state" where
  "notifyReactives body target key st =
     (case st of (w, tr) \<Rightarrow>
        (case map_of (targetToKeysToCallbacks w) target of
           None \<Rightarrow> (w, tr @ [Notified target key])
         | Some keyToCallbacks \<Rightarrow>
             (case map_of keyToCallbacks key of
                None \<Rightarrow> (w, tr @ [Notified target key])
              | Some callbacks \<Rightarrow>
                  notifyLoop body callbacks (w, tr @ [Notified target key]))))"

text \<open>What the tables say: the callbacks subscribed to a key of a target, in the order of
  the Set, and the targets the reverse index lists for a callback.\<close>

definition subscribers :: "world \<Rightarrow> addr \<Rightarrow> val \<Rightarrow> callback list" where
  "subscribers w target key = get_or [] (get_or [] (targetToKeysToCallbacks w) target) key"

definition targetsOf :: "world \<Rightarrow> callback \<Rightarrow> addr list" where
  "targetsOf w callback = get_or [] (callbacksToTargets w) callback"

text \<open>Every subscription is listed in the reverse index: \<open>observeTargetKey\<close> writes both
  tables, and nothing else adds a subscription.\<close>

definition indexed :: "world \<Rightarrow> bool" where
  "indexed w = (\<forall>target key callback.
     callback \<in> set (subscribers w target key) \<longrightarrow> target \<in> set (targetsOf w callback))"

definition calls :: "event list \<Rightarrow> (callback \<times> world) list" where
  "calls tr = concat (map (\<lambda>e. case e of Called c w \<Rightarrow> [(c, w)] | Notified t k \<Rightarrow> []) tr)"

definition notifications :: "event list \<Rightarrow> (addr \<times> val) list" where
  "notifications tr = concat (map (\<lambda>e. case e of Notified t k \<Rightarrow> [(t, k)] | Called c w \<Rightarrow> []) tr)"

section \<open>The heap and the native operations the traps delegate to\<close>

datatype error = TypeError | RangeError | CannotMakeReactive | Unmodelled

definition cellAt :: "world \<Rightarrow> addr \<Rightarrow> cell option" where
  "cellAt w a = (if a < length (heap w) then Some (heap w ! a) else None)"

definition rawAt :: "world \<Rightarrow> addr \<Rightarrow> obj option" where
  "rawAt w a = (case cellAt w a of Some (Raw ob) \<Rightarrow> Some ob | _ \<Rightarrow> None)"

definition putRaw :: "addr \<Rightarrow> obj \<Rightarrow> world \<Rightarrow> world" where
  "putRaw a ob w = w\<lparr>heap := (heap w)[a := Raw ob]\<rparr>"

text \<open>\<open>a === b\<close>: identity on objects and symbols, equality on primitives, false on NaN.\<close>

definition strictEq :: "val \<Rightarrow> val \<Rightarrow> bool" where
  "strictEq a b = (a = b \<and> a \<noteq> NaN)"

text \<open>
  An array index is a canonical decimal string below \<open>2^32 - 1\<close>; a valid array
  length is a number from \<open>0\<close> to \<open>2^32 - 1\<close>.
\<close>

definition digit :: "char \<Rightarrow> nat option" where
  "digit c = (let n = (of_char c :: nat) in if 48 \<le> n \<and> n \<le> 57 then Some (n - 48) else None)"

fun decimal :: "nat \<Rightarrow> string \<Rightarrow> nat option" where
  "decimal acc [] = Some acc"
| "decimal acc (c # cs) =
     (case digit c of None \<Rightarrow> None | Some d \<Rightarrow> decimal (10 * acc + d) cs)"

definition arrayIndex :: "val \<Rightarrow> nat option" where
  "arrayIndex key =
     (case key of
        Str s \<Rightarrow>
          (if s = [] \<or> (length s > 1 \<and> hd s = CHR ''0'') then None
           else (case decimal 0 s of
                   None \<Rightarrow> None
                 | Some n \<Rightarrow> if n < 4294967295 then Some n else None))
      | _ \<Rightarrow> None)"

definition dataProperty :: "val \<Rightarrow> property" where
  "dataProperty v = \<lparr>pvalue = v, writable = True, configurable = True\<rparr>"

definition isArray :: "world \<Rightarrow> addr \<Rightarrow> bool" where
  "isArray w a = (case rawAt w a of Some ob \<Rightarrow> kind ob = KArray | None \<Rightarrow> False)"

definition hasOwnProperty :: "world \<Rightarrow> addr \<Rightarrow> val \<Rightarrow> bool" where
  "hasOwnProperty w a key =
     (case rawAt w a of Some ob \<Rightarrow> map_of (props ob) key \<noteq> None | None \<Rightarrow> False)"

text \<open>
  What the built-in prototype chain of a kind holds at a key: nothing, a data property
  (its value and whether it is writable), or something the model does not answer for.
  The model answers for the methods that every engine with proxies has and that are
  plain writable function properties with an identity of their own, for
  \<open>Symbol.toStringTag\<close> (read-only on the prototypes of Set, Map, WeakMap and Promise), and
  for the keys that no built-in prototype holds. It does not answer for accessors
  (\<open>__proto__\<close>, \<open>size\<close>), for methods that are one function under two keys (\<open>values\<close> and
  \<open>Symbol.iterator\<close> of an array), for the members later editions of the language added
  (up to ECMAScript 2025 and the proposals at stage 3), nor for a Date or a Promise.
\<close>

datatype member = Absent | Data val bool | Unknown

definition objectMethods :: "string list" where
  "objectMethods = [''hasOwnProperty'', ''isPrototypeOf'', ''propertyIsEnumerable'',
     ''valueOf'', ''toString'', ''toLocaleString'', ''constructor'']"

definition prototypeName :: "kind \<Rightarrow> string" where
  "prototypeName k = (case k of KObject \<Rightarrow> ''Object'' | KArray \<Rightarrow> ''Array'' | KSet \<Rightarrow> ''Set''
     | KMap \<Rightarrow> ''Map'' | KWeakMap \<Rightarrow> ''WeakMap'' | KDate \<Rightarrow> ''Date'' | KPromise \<Rightarrow> ''Promise'')"

definition ownMethods :: "kind \<Rightarrow> string list" where
  "ownMethods k =
     (case k of
        KArray \<Rightarrow> [''concat'', ''join'', ''pop'', ''push'', ''reverse'', ''shift'', ''unshift'',
          ''slice'', ''sort'', ''splice'', ''indexOf'', ''lastIndexOf'', ''forEach'', ''map'',
          ''filter'', ''every'', ''some'', ''reduce'', ''reduceRight'', ''toString'',
          ''toLocaleString'', ''constructor'', ''find'', ''findIndex'', ''fill'',
          ''copyWithin'', ''keys'', ''entries'']
      | KSet \<Rightarrow> [''has'', ''add'', ''delete'', ''clear'', ''forEach'', ''entries'',
          ''constructor'']
      | KMap \<Rightarrow> [''get'', ''set'', ''has'', ''delete'', ''clear'', ''forEach'', ''keys'',
          ''values'', ''constructor'']
      | KWeakMap \<Rightarrow> [''get'', ''set'', ''has'', ''delete'', ''constructor'']
      | _ \<Rightarrow> [])"

definition reservedNames :: "string list" where
  "reservedNames = [''__proto__'', ''__defineGetter__'', ''__defineSetter__'',
     ''__lookupGetter__'', ''__lookupSetter__'', ''size'', ''length'', ''values'', ''keys'',
     ''entries'', ''at'', ''includes'', ''flat'', ''flatMap'', ''findLast'', ''findLastIndex'',
     ''toReversed'', ''toSorted'', ''toSpliced'', ''with'', ''group'', ''groupToMap'',
     ''groupBy'', ''union'', ''intersection'', ''difference'', ''symmetricDifference'',
     ''isSubsetOf'', ''isSupersetOf'', ''isDisjointFrom'', ''getOrInsert'',
     ''getOrInsertComputed'', ''emplace'', ''upsert'']"

definition inherited :: "kind \<Rightarrow> val \<Rightarrow> member" where
  "inherited k key =
     (case key of
        Sym s \<Rightarrow>
          (case s of
             TO_STRING_TAG \<Rightarrow>
               (case k of KSet \<Rightarrow> Data (Str ''Set'') False | KMap \<Rightarrow> Data (Str ''Map'') False
                | KWeakMap \<Rightarrow> Data (Str ''WeakMap'') False
                | KPromise \<Rightarrow> Data (Str ''Promise'') False | _ \<Rightarrow> Absent)
           | ITERATOR \<Rightarrow> (if k \<in> {KArray, KSet, KMap} then Unknown else Absent)
           | _ \<Rightarrow> Absent)
      | Str name \<Rightarrow>
          if k \<in> {KDate, KPromise} then Unknown
          else if name \<in> set (ownMethods k) then Data (Builtin (prototypeName k) name) True
          else if name \<in> set objectMethods then Data (Builtin ''Object'' name) True
          else if name \<in> set reservedNames then Unknown
          else Absent
      | _ \<Rightarrow> Unknown)"

text \<open>\<open>Reflect.get(target, key, proxy)\<close> on a raw target: the own property, else what the
  prototype chain holds.\<close>

definition Reflect_get :: "world \<Rightarrow> addr \<Rightarrow> val \<Rightarrow> error + val" where
  "Reflect_get w a key =
     (case rawAt w a of
        None \<Rightarrow> Inl Unmodelled
      | Some ob \<Rightarrow>
          (case map_of (props ob) key of
             Some p \<Rightarrow> Inr (pvalue p)
           | None \<Rightarrow>
               (case inherited (kind ob) key of
                  Absent \<Rightarrow> Inr Undefined
                | Data v wr \<Rightarrow> Inr v
                | Unknown \<Rightarrow> Inl Unmodelled)))"

definition Reflect_has :: "world \<Rightarrow> addr \<Rightarrow> val \<Rightarrow> error + bool" where
  "Reflect_has w a key =
     (case rawAt w a of
        None \<Rightarrow> Inl Unmodelled
      | Some ob \<Rightarrow>
          (case map_of (props ob) key of
             Some p \<Rightarrow> Inr True
           | None \<Rightarrow>
               (case inherited (kind ob) key of
                  Absent \<Rightarrow> Inr False
                | Data v wr \<Rightarrow> Inr True
                | Unknown \<Rightarrow> Inl Unmodelled)))"

definition arrayLength :: "obj \<Rightarrow> nat" where
  "arrayLength ob =
     (case map_of (props ob) (Str ''length'') of
        Some p \<Rightarrow> (case pvalue p of Num n \<Rightarrow> nat n | _ \<Rightarrow> 0)
      | None \<Rightarrow> 0)"

definition lengthWritable :: "obj \<Rightarrow> bool" where
  "lengthWritable ob =
     (case map_of (props ob) (Str ''length'') of Some p \<Rightarrow> writable p | None \<Rightarrow> True)"

definition setValue :: "val \<Rightarrow> val \<Rightarrow> (val \<times> property) list \<Rightarrow> (val \<times> property) list" where
  "setValue key v ps =
     (case map_of ps key of
        Some p \<Rightarrow> AList.update key (p\<lparr>pvalue := v\<rparr>) ps
      | None \<Rightarrow> AList.update key (dataProperty v) ps)"

text \<open>Writing an array's \<open>length\<close>: the elements from the new length on are removed.\<close>

definition truncate_props :: "nat \<Rightarrow> (val \<times> property) list \<Rightarrow> (val \<times> property) list" where
  "truncate_props n ps =
     filter (\<lambda>(k, p). case arrayIndex k of Some i \<Rightarrow> i < n | None \<Rightarrow> True) ps"

text \<open>
  The assignment \<open>Reflect.set(target, key, value, proxy)\<close> comes to on a raw target: no
  object (the write is refused, \<open>false\<close>) on a non-writable property, own or inherited;
  else the own property takes the value, or is created. On an array, a new index at or
  beyond the length moves the length (the write is refused when the length is not
  writable), and a write to \<open>length\<close> removes the elements from the new length on, or
  throws a RangeError on an invalid length. A length that is not a number would be
  coerced, and a non-configurable element stops the truncation: not modelled.
\<close>

definition assign :: "obj \<Rightarrow> val \<Rightarrow> val \<Rightarrow> error + obj option" where
  "assign ob key v =
     (case map_of (props ob) key of
        Some p \<Rightarrow>
          if \<not> writable p then Inr None
          else if kind ob = KArray \<and> key = Str ''length'' then
            (case v of
               Num n \<Rightarrow>
                 if \<not> (0 \<le> n \<and> n < 4294967296) then Inl RangeError
                 else if list_ex (\<lambda>(k, q). \<not> configurable q
                            \<and> (case arrayIndex k of Some i \<Rightarrow> nat n \<le> i | None \<Rightarrow> False))
                          (props ob)
                 then Inl Unmodelled
                 else Inr (Some (ob\<lparr>props := setValue key v (truncate_props (nat n) (props ob))\<rparr>))
             | NaN \<Rightarrow> Inl RangeError
             | Undefined \<Rightarrow> Inl RangeError
             | _ \<Rightarrow> Inl Unmodelled)
          else Inr (Some (ob\<lparr>props := setValue key v (props ob)\<rparr>))
      | None \<Rightarrow>
          (case inherited (kind ob) key of
             Unknown \<Rightarrow> Inl Unmodelled
           | Data u wr \<Rightarrow>
               if wr then Inr (Some (ob\<lparr>props := setValue key v (props ob)\<rparr>)) else Inr None
           | Absent \<Rightarrow>
               (case (if kind ob = KArray then arrayIndex key else None) of
                  Some i \<Rightarrow>
                    if i < arrayLength ob
                    then Inr (Some (ob\<lparr>props := setValue key v (props ob)\<rparr>))
                    else if lengthWritable ob
                    then Inr (Some (ob\<lparr>props := setValue (Str ''length'') (Num (int i + 1))
                                                   (setValue key v (props ob))\<rparr>))
                    else Inr None
                | None \<Rightarrow> Inr (Some (ob\<lparr>props := setValue key v (props ob)\<rparr>)))))"

definition Reflect_set :: "world \<Rightarrow> addr \<Rightarrow> val \<Rightarrow> val \<Rightarrow> error + (bool \<times> world)" where
  "Reflect_set w a key v =
     (case rawAt w a of
        None \<Rightarrow> Inl Unmodelled
      | Some ob \<Rightarrow>
          (case assign ob key v of
             Inl e \<Rightarrow> Inl e
           | Inr None \<Rightarrow> Inr (False, w)
           | Inr (Some ob') \<Rightarrow> Inr (True, putRaw a ob' w)))"

text \<open>\<open>Reflect.deleteProperty(target, key)\<close>: \<open>false\<close> on a non-configurable property.\<close>

definition Reflect_deleteProperty :: "world \<Rightarrow> addr \<Rightarrow> val \<Rightarrow> error + (bool \<times> world)" where
  "Reflect_deleteProperty w a key =
     (case rawAt w a of
        None \<Rightarrow> Inl Unmodelled
      | Some ob \<Rightarrow>
          (case map_of (props ob) key of
             None \<Rightarrow> Inr (True, w)
           | Some p \<Rightarrow>
               if configurable p
               then Inr (True, putRaw a (ob\<lparr>props := AList.delete key (props ob)\<rparr>) w)
               else Inr (False, w)))"

section \<open>The traps of \<open>basicProxyHandler\<close> that write\<close>

text \<open>
  A trap runs against the world and the trace. The property key it receives is a string
  or a symbol.
\<close>

definition trap_set ::
  "bodies \<Rightarrow> addr \<Rightarrow> val \<Rightarrow> val \<Rightarrow> state \<Rightarrow> error + (bool \<times> state)" where
  "trap_set body target key v st =
     (case st of (w, tr) \<Rightarrow>
        (let isNewKey = \<not> hasOwnProperty w target key in
         case Reflect_get w target key of
           Inl e \<Rightarrow> Inl e
         | Inr originalValue \<Rightarrow>
             (case Reflect_set w target key v of
                Inl e \<Rightarrow> Inl e
              | Inr (ret, w1) \<Rightarrow>
                  (let st1 = (if isNewKey then notifyReactives body target (Sym KEYCHANGES) (w1, tr)
                              else (w1, tr));
                       st2 = (if \<not> strictEq originalValue v
                                 \<or> (isArray (fst st1) target \<and> key = Str ''length'')
                              then notifyReactives body target key st1 else st1)
                   in Inr (ret, st2)))))"

definition trap_deleteProperty ::
  "bodies \<Rightarrow> addr \<Rightarrow> val \<Rightarrow> state \<Rightarrow> error + (bool \<times> state)" where
  "trap_deleteProperty body target key st =
     (case st of (w, tr) \<Rightarrow>
        (case Reflect_deleteProperty w target key of
           Inl e \<Rightarrow> Inl e
         | Inr (ret, w1) \<Rightarrow>
             Inr (ret, notifyReactives body target key
                         (notifyReactives body target (Sym KEYCHANGES) (w1, tr)))))"

section \<open>The capability probe\<close>

definition typeOf :: "val \<Rightarrow> string" where
  "typeOf v = (case v of
      Undefined \<Rightarrow> ''undefined'' | Null \<Rightarrow> ''object'' | Bool b \<Rightarrow> ''boolean''
    | Num n \<Rightarrow> ''number'' | NaN \<Rightarrow> ''number'' | Str s \<Rightarrow> ''string''
    | Sym s \<Rightarrow> ''symbol'' | Fun f \<Rightarrow> ''function'' | Ref a \<Rightarrow> ''object''
    | Handler t c s \<Rightarrow> ''function'' | Builtin p n \<Rightarrow> ''function'')"

definition truthy :: "val \<Rightarrow> bool" where
  "truthy v = (case v of
      Undefined \<Rightarrow> False | Null \<Rightarrow> False | Bool b \<Rightarrow> b | Num n \<Rightarrow> n \<noteq> 0 | NaN \<Rightarrow> False
    | Str s \<Rightarrow> s \<noteq> [] | _ \<Rightarrow> True)"

definition SUPPORTED_RAW_TYPES :: "string list" where
  "SUPPORTED_RAW_TYPES = [''Object'', ''Array'', ''Set'', ''Map'', ''WeakMap'']"

definition COLLECTION_RAWTYPES :: "string list" where
  "COLLECTION_RAWTYPES = [''Set'', ''Map'', ''WeakMap'']"

text \<open>
  \<open>Object.prototype.toString.call(obj).slice(8, -1)\<close>: the value of
  \<open>Symbol.toStringTag\<close> when that is a string, else the built-in tag.
\<close>

definition builtinTag :: "kind \<Rightarrow> string" where
  "builtinTag k = (case k of KArray \<Rightarrow> ''Array'' | KDate \<Rightarrow> ''Date'' | _ \<Rightarrow> ''Object'')"

definition tagOr :: "string \<Rightarrow> val \<Rightarrow> string" where
  "tagOr builtin v = (case v of Str s \<Rightarrow> s | _ \<Rightarrow> builtin)"

text \<open>
  On a view, reading \<open>Symbol.toStringTag\<close> runs the \<open>get\<close> trap of its handler: the
  trap skips a non-writable, non-configurable property (basic handler), else observes the
  key for the view's callback and hands the value to \<open>possiblyReactive\<close>, which returns
  a value that is not an object as it is. A tag that is an object is outside the model.
\<close>

definition tagThroughTrap ::
  "handler \<Rightarrow> addr \<Rightarrow> callback \<Rightarrow> world \<Rightarrow> error + (val \<times> world)" where
  "tagThroughTrap h target callback w =
     (case rawAt w target of
        None \<Rightarrow> Inl Unmodelled
      | Some ob \<Rightarrow>
          (let desc = map_of (props ob) (Sym TO_STRING_TAG);
               frozen = (case desc of Some p \<Rightarrow> \<not> writable p \<and> \<not> configurable p
                         | None \<Rightarrow> False);
               w1 = (if h = BasicHandler \<and> frozen then w
                     else observeTargetKey target (Sym TO_STRING_TAG) callback w)
           in case Reflect_get w1 target (Sym TO_STRING_TAG) of
                Inl e \<Rightarrow> Inl e
              | Inr (Ref a) \<Rightarrow> Inl Unmodelled
              | Inr v \<Rightarrow> Inr (v, w1)))"

definition rawType :: "val \<Rightarrow> world \<Rightarrow> error + (string \<times> world)" where
  "rawType v w =
     (case v of
        Undefined \<Rightarrow> Inr (''Undefined'', w) | Null \<Rightarrow> Inr (''Null'', w)
      | Bool b \<Rightarrow> Inr (''Boolean'', w) | Num n \<Rightarrow> Inr (''Number'', w)
      | NaN \<Rightarrow> Inr (''Number'', w) | Str s \<Rightarrow> Inr (''String'', w)
      | Sym s \<Rightarrow> Inr (''Symbol'', w) | Fun f \<Rightarrow> Inr (''Function'', w)
      | Handler t c s \<Rightarrow> Inr (''Function'', w)
      | Builtin p n \<Rightarrow> Inr (''Function'', w)
      | Ref a \<Rightarrow>
          (case cellAt w a of
             None \<Rightarrow> Inl Unmodelled
           | Some (Raw ob) \<Rightarrow>
               (case Reflect_get w a (Sym TO_STRING_TAG) of
                  Inl e \<Rightarrow> Inl e
                | Inr t \<Rightarrow> Inr (tagOr (builtinTag (kind ob)) t, w))
           | Some (Proxy target callback h) \<Rightarrow>
               (case tagThroughTrap h target callback w of
                  Inl e \<Rightarrow> Inl e
                | Inr (t, w1) \<Rightarrow>
                    Inr (tagOr (if isArray w target then ''Array'' else ''Object'') t, w1))))"

definition canBeMadeReactive :: "val \<Rightarrow> world \<Rightarrow> error + (bool \<times> world)" where
  "canBeMadeReactive v w =
     (if typeOf v \<noteq> ''object'' then Inr (False, w)
      else (case rawType v w of
              Inl e \<Rightarrow> Inl e
            | Inr (t, w1) \<Rightarrow> Inr (t \<in> set SUPPORTED_RAW_TYPES, w1)))"

text \<open>\<open>key in value\<close> and \<open>value[key]\<close> on an object: on a view they run its \<open>has\<close> and
  \<open>get\<close> traps; here only \<open>value[TARGET]\<close> is read through a view, which the \<open>get\<close> trap
  of both handlers answers with the target.\<close>

definition inOperator :: "val \<Rightarrow> addr \<Rightarrow> world \<Rightarrow> error + (bool \<times> world)" where
  "inOperator key a w =
     (case cellAt w a of
        None \<Rightarrow> Inl Unmodelled
      | Some (Raw ob) \<Rightarrow> (case Reflect_has w a key of Inl e \<Rightarrow> Inl e | Inr b \<Rightarrow> Inr (b, w))
      | Some (Proxy target callback h) \<Rightarrow>
          (let w1 = observeTargetKey target (Sym KEYCHANGES) callback w
           in case Reflect_has w1 target key of Inl e \<Rightarrow> Inl e | Inr b \<Rightarrow> Inr (b, w1)))"

definition readTARGET :: "val \<Rightarrow> world \<Rightarrow> error + val" where
  "readTARGET v w =
     (case v of
        Undefined \<Rightarrow> Inl TypeError
      | Null \<Rightarrow> Inl TypeError
      | Ref a \<Rightarrow>
          (case cellAt w a of
             None \<Rightarrow> Inl Unmodelled
           | Some (Raw ob) \<Rightarrow> Reflect_get w a (Sym TARGET)
           | Some (Proxy target callback h) \<Rightarrow> Inr (Ref target))
      | _ \<Rightarrow> Inr Undefined)"

definition toRaw :: "val \<Rightarrow> world \<Rightarrow> error + val" where
  "toRaw v w =
     (case readTARGET v w of
        Inl e \<Rightarrow> Inl e
      | Inr t \<Rightarrow> Inr (if truthy t then t else v))"

text \<open>The part of \<open>reactive\<close> after the three early exits: look the view up in
  \<open>reactiveCache\<close>, creating the proxy on a miss.\<close>

definition ensureCache :: "addr \<Rightarrow> world \<Rightarrow> world" where
  "ensureCache a w =
     (if map_of (reactiveCache w) a = None
      then w\<lparr>reactiveCache := AList.update a [] (reactiveCache w)\<rparr> else w)"

definition handlerFor :: "string \<Rightarrow> handler" where
  "handlerFor targetRawType =
     (if targetRawType \<in> set COLLECTION_RAWTYPES then CollectionsHandler targetRawType
      else BasicHandler)"

definition cachedOrNew :: "addr \<Rightarrow> callback \<Rightarrow> world \<Rightarrow> error + (val \<times> world)" where
  "cachedOrNew a callback w =
     (let w0 = ensureCache a w;
          reactivesForTarget = get_or [] (reactiveCache w0) a
      in case map_of reactivesForTarget callback of
           Some p \<Rightarrow> Inr (Ref p, w0)
         | None \<Rightarrow>
             (case rawType (Ref a) w0 of
                Inl e \<Rightarrow> Inl e
              | Inr (targetRawType, w1) \<Rightarrow>
                  (let proxy = length (heap w1)
                   in Inr (Ref proxy,
                        w1\<lparr>heap := heap w1 @ [Proxy a callback (handlerFor targetRawType)],
                            reactiveCache :=
                              AList.update a (AList.update callback proxy reactivesForTarget)
                                (reactiveCache w1)\<rparr>))))"

partial_function (option) reactive ::
  "val \<Rightarrow> callback \<Rightarrow> world \<Rightarrow> (error + (val \<times> world)) option" where
  "reactive target callback w =
     (case canBeMadeReactive target w of
        Inl e \<Rightarrow> Some (Inl e)
      | Inr (can, w1) \<Rightarrow>
          if \<not> can then Some (Inl CannotMakeReactive)
          else (case target of
             Ref a \<Rightarrow>
               (case inOperator (Sym SKIP) a w1 of
                  Inl e \<Rightarrow> Some (Inl e)
                | Inr (skip, w2) \<Rightarrow>
                    if skip then Some (Inr (target, w2))
                    else (case readTARGET target w2 of
                       Inl e \<Rightarrow> Some (Inl e)
                     | Inr originalTarget \<Rightarrow>
                         if truthy originalTarget then reactive originalTarget callback w2
                         else Some (cachedOrNew a callback w2)))
           | _ \<Rightarrow> Some (Inl Unmodelled)))"

definition possiblyReactive ::
  "val \<Rightarrow> callback \<Rightarrow> world \<Rightarrow> (error + (val \<times> world)) option" where
  "possiblyReactive v cb w =
     (case canBeMadeReactive v w of
        Inl e \<Rightarrow> Some (Inl e)
      | Inr (can, w1) \<Rightarrow> if can then reactive v cb w1 else Some (Inr (v, w1)))"

section \<open>The traps that read\<close>

text \<open>
  \<open>get\<close>, \<open>has\<close> and \<open>ownKeys\<close> of \<open>basicProxyHandler(callback)\<close>. \<open>Reflect.ownKeys\<close> lists
  the array indices in ascending order, then the other strings and then the symbols, each
  in creation order.
\<close>

definition ownKeys :: "obj \<Rightarrow> val list" where
  "ownKeys ob =
     (let ks = map fst (props ob)
      in sort_key (\<lambda>k. case arrayIndex k of Some i \<Rightarrow> i | None \<Rightarrow> 0)
           (filter (\<lambda>k. arrayIndex k \<noteq> None) ks)
         @ filter (\<lambda>k. arrayIndex k = None \<and> (case k of Sym s \<Rightarrow> False | _ \<Rightarrow> True)) ks
         @ filter (\<lambda>k. case k of Sym s \<Rightarrow> True | _ \<Rightarrow> False) ks)"

definition trap_get ::
  "addr \<Rightarrow> val \<Rightarrow> callback \<Rightarrow> world \<Rightarrow> (error + (val \<times> world)) option" where
  "trap_get target key callback w =
     (if key = Sym TARGET then Some (Inr (Ref target, w))
      else (case rawAt w target of
              None \<Rightarrow> Some (Inl Unmodelled)
            | Some ob \<Rightarrow>
                (let desc = map_of (props ob) key;
                     frozen = (case desc of Some p \<Rightarrow> \<not> writable p \<and> \<not> configurable p
                               | None \<Rightarrow> False)
                 in if frozen
                    then (case Reflect_get w target key of
                            Inl e \<Rightarrow> Some (Inl e) | Inr v \<Rightarrow> Some (Inr (v, w)))
                    else (let w1 = observeTargetKey target key callback w
                          in case Reflect_get w1 target key of
                               Inl e \<Rightarrow> Some (Inl e)
                             | Inr v \<Rightarrow> possiblyReactive v callback w1))))"

definition trap_has :: "addr \<Rightarrow> val \<Rightarrow> callback \<Rightarrow> world \<Rightarrow> error + (bool \<times> world)" where
  "trap_has target key callback w =
     (let w1 = observeTargetKey target (Sym KEYCHANGES) callback w
      in case Reflect_has w1 target key of Inl e \<Rightarrow> Inl e | Inr b \<Rightarrow> Inr (b, w1))"

definition trap_ownKeys :: "addr \<Rightarrow> callback \<Rightarrow> world \<Rightarrow> error + (val list \<times> world)" where
  "trap_ownKeys target callback w =
     (let w1 = observeTargetKey target (Sym KEYCHANGES) callback w
      in case rawAt w1 target of
           None \<Rightarrow> Inl Unmodelled
         | Some ob \<Rightarrow> Inr (ownKeys ob, w1))"

section \<open>Views of collections\<close>

text \<open>
  The native methods of Set, Map and WeakMap on the entries of a raw collection. A method
  the object does not have is not a function (TypeError on the call); a WeakMap takes
  objects as keys only. \<open>add\<close> and \<open>set\<close> return the collection, \<open>delete\<close> whether the key
  was there.
\<close>

definition isObject :: "val \<Rightarrow> bool" where
  "isObject v = (case v of Ref a \<Rightarrow> True | Fun f \<Rightarrow> True | Handler t c s \<Rightarrow> True
     | Builtin p n \<Rightarrow> True | _ \<Rightarrow> False)"

definition nativeMethods :: "kind \<Rightarrow> string list" where
  "nativeMethods k =
     (case k of
        KSet \<Rightarrow> [''has'', ''add'', ''delete'', ''clear'']
      | KMap \<Rightarrow> [''has'', ''get'', ''set'', ''delete'', ''clear'']
      | KWeakMap \<Rightarrow> [''has'', ''get'', ''set'', ''delete'']
      | _ \<Rightarrow> [])"

definition nativeHas :: "obj \<Rightarrow> val \<Rightarrow> bool" where
  "nativeHas ob key = (map_of (entries ob) key \<noteq> None)"

definition nativeGet :: "obj \<Rightarrow> val \<Rightarrow> val" where
  "nativeGet ob key = (case map_of (entries ob) key of Some v \<Rightarrow> v | None \<Rightarrow> Undefined)"

definition callNative ::
  "string \<Rightarrow> addr \<Rightarrow> val \<Rightarrow> val \<Rightarrow> world \<Rightarrow> error + (val \<times> world)" where
  "callNative name a key v w =
     (case rawAt w a of
        None \<Rightarrow> Inl Unmodelled
      | Some ob \<Rightarrow>
          if name \<notin> set (nativeMethods (kind ob)) then Inl TypeError
          else if name = ''has'' then Inr (Bool (nativeHas ob key), w)
          else if name = ''get'' then Inr (nativeGet ob key, w)
          else if name = ''add'' then
            Inr (Ref a, putRaw a (ob\<lparr>entries := (if nativeHas ob key then entries ob
                                                  else entries ob @ [(key, key)])\<rparr>) w)
          else if name = ''set'' then
            (if kind ob = KWeakMap \<and> \<not> isObject key then Inl TypeError
             else Inr (Ref a, putRaw a (ob\<lparr>entries := AList.update key v (entries ob)\<rparr>) w))
          else if name = ''delete'' then
            Inr (Bool (nativeHas ob key),
                 putRaw a (ob\<lparr>entries := AList.delete key (entries ob)\<rparr>) w)
          else if name = ''clear'' then Inr (Undefined, putRaw a (ob\<lparr>entries := []\<rparr>) w)
          else Inl Unmodelled)"

text \<open>\<open>makeKeyObserver(methodName, target, callback)\<close>, called with \<open>key\<close>.\<close>

definition makeKeyObserver ::
  "string \<Rightarrow> addr \<Rightarrow> callback \<Rightarrow> val \<Rightarrow> world \<Rightarrow> (error + (val \<times> world)) option" where
  "makeKeyObserver methodName target callback key0 w =
     (case toRaw key0 w of
        Inl e \<Rightarrow> Some (Inl e)
      | Inr key \<Rightarrow>
          (let w1 = observeTargetKey target key callback w
           in case callNative methodName target key Undefined w1 of
                Inl e \<Rightarrow> Some (Inl e)
              | Inr (v, w2) \<Rightarrow> possiblyReactive v callback w2))"

text \<open>\<open>delegateAndNotify(setterName, getterName, target)\<close>, called with \<open>key\<close> and \<open>value\<close>
  (\<open>undefined\<close> when the caller passes one argument).\<close>

definition delegateAndNotify ::
  "bodies \<Rightarrow> string \<Rightarrow> string \<Rightarrow> addr \<Rightarrow> val \<Rightarrow> val \<Rightarrow> state \<Rightarrow> error + (val \<times> state)" where
  "delegateAndNotify body setterName getterName target key0 v st =
     (case st of (w, tr) \<Rightarrow>
        (case toRaw key0 w of
           Inl e \<Rightarrow> Inl e
         | Inr key \<Rightarrow>
        (case callNative ''has'' target key Undefined w of
           Inl e \<Rightarrow> Inl e
         | Inr (hadKey, wa) \<Rightarrow>
        (case callNative getterName target key Undefined wa of
           Inl e \<Rightarrow> Inl e
         | Inr (originalValue, wb) \<Rightarrow>
        (case callNative setterName target key v wb of
           Inl e \<Rightarrow> Inl e
         | Inr (ret, w1) \<Rightarrow>
        (case callNative ''has'' target key Undefined w1 of
           Inl e \<Rightarrow> Inl e
         | Inr (hasKey, w2) \<Rightarrow>
             (let st1 = (if \<not> strictEq hadKey hasKey
                         then notifyReactives body target (Sym KEYCHANGES) (w2, tr)
                         else (w2, tr));
                  st2 = (if \<not> strictEq originalValue v
                         then notifyReactives body target key st1 else st1)
              in Inr (ret, st2))))))))"

text \<open>\<open>makeClearNotifier(target)\<close>: \<open>target.keys()\<close> lists the keys in insertion order.\<close>

definition makeClearNotifier :: "bodies \<Rightarrow> addr \<Rightarrow> state \<Rightarrow> error + (val \<times> state)" where
  "makeClearNotifier body target st =
     (case st of (w, tr) \<Rightarrow>
        (case rawAt w target of
           None \<Rightarrow> Inl Unmodelled
         | Some ob \<Rightarrow>
             (let allKeys = map fst (entries ob)
              in case callNative ''clear'' target Undefined Undefined w of
                   Inl e \<Rightarrow> Inl e
                 | Inr (r, w1) \<Rightarrow>
                     Inr (Undefined,
                          fold (\<lambda>key s. notifyReactives body target key s) allKeys
                            (notifyReactives body target (Sym KEYCHANGES) (w1, tr))))))"

text \<open>The getter \<open>size\<close> of the special handlers of a Set and a Map.\<close>

definition sizeGetter :: "addr \<Rightarrow> callback \<Rightarrow> world \<Rightarrow> error + (val \<times> world)" where
  "sizeGetter target callback w =
     (let w1 = observeTargetKey target (Sym KEYCHANGES) callback w
      in case rawAt w1 target of
           None \<Rightarrow> Inl Unmodelled
         | Some ob \<Rightarrow> Inr (Num (int (length (entries ob))), w1))"

text \<open>\<open>rawTypeToFuncHandlers[targetRawType](target, callback)\<close>: the own keys of the object
  of special handlers and what each holds.\<close>

definition rawTypeToFuncHandlers :: "string \<Rightarrow> (val \<times> special) list" where
  "rawTypeToFuncHandlers targetRawType =
     (if targetRawType = ''Set'' then
        [(Str ''has'', KeyObserver ''has''),
         (Str ''add'', DelegateAndNotify ''add'' ''has''),
         (Str ''delete'', DelegateAndNotify ''delete'' ''has''),
         (Str ''keys'', IteratorObserver ''keys''),
         (Str ''values'', IteratorObserver ''values''),
         (Str ''entries'', IteratorObserver ''entries''),
         (Sym ITERATOR, IteratorObserver ''Symbol.iterator''),
         (Str ''forEach'', ForEachObserver),
         (Str ''clear'', ClearNotifier),
         (Str ''size'', SizeGetter)]
      else if targetRawType = ''Map'' then
        [(Str ''has'', KeyObserver ''has''),
         (Str ''get'', KeyObserver ''get''),
         (Str ''set'', DelegateAndNotify ''set'' ''get''),
         (Str ''delete'', DelegateAndNotify ''delete'' ''has''),
         (Str ''keys'', IteratorObserver ''keys''),
         (Str ''values'', IteratorObserver ''values''),
         (Str ''entries'', IteratorObserver ''entries''),
         (Sym ITERATOR, IteratorObserver ''Symbol.iterator''),
         (Str ''forEach'', ForEachObserver),
         (Str ''clear'', ClearNotifier),
         (Str ''size'', SizeGetter)]
      else if targetRawType = ''WeakMap'' then
        [(Str ''has'', KeyObserver ''has''),
         (Str ''get'', KeyObserver ''get''),
         (Str ''set'', DelegateAndNotify ''set'' ''get''),
         (Str ''delete'', DelegateAndNotify ''delete'' ''has'')]
      else [])"

text \<open>
  The \<open>get\<close> trap of \<open>collectionsProxyHandler(target, callback, targetRawType)\<close>; its other
  traps are those of \<open>basicProxyHandler(callback)\<close>. A special handler is returned as the
  function it is, except \<open>size\<close>, whose read runs the getter.
\<close>

definition collections_get ::
  "string \<Rightarrow> addr \<Rightarrow> val \<Rightarrow> callback \<Rightarrow> world \<Rightarrow> (error + (val \<times> world)) option" where
  "collections_get targetRawType target key callback w =
     (if key = Sym TARGET then Some (Inr (Ref target, w))
      else (case map_of (rawTypeToFuncHandlers targetRawType) key of
              Some SizeGetter \<Rightarrow> Some (sizeGetter target callback w)
            | Some s \<Rightarrow> Some (Inr (Handler target callback s, w))
            | None \<Rightarrow>
                (let w1 = observeTargetKey target key callback w
                 in case Reflect_get w1 target key of
                      Inl e \<Rightarrow> Some (Inl e)
                    | Inr v \<Rightarrow> possiblyReactive v callback w1)))"

section \<open>Marking, and the operations of user code\<close>

text \<open>
  \<open>markRaw(value)\<close> is the assignment \<open>value[SKIP] = true\<close> in strict mode: a TypeError on
  \<open>null\<close>, \<open>undefined\<close>, a primitive and a refused write; through a view it runs the \<open>set\<close>
  trap. (The properties of functions are not part of the heap.)
\<close>

definition markRaw :: "bodies \<Rightarrow> val \<Rightarrow> state \<Rightarrow> error + (val \<times> state)" where
  "markRaw body v st =
     (case st of (w, tr) \<Rightarrow>
        (case v of
           Ref a \<Rightarrow>
             (case cellAt w a of
                None \<Rightarrow> Inl Unmodelled
              | Some (Raw ob) \<Rightarrow>
                  (case Reflect_set w a (Sym SKIP) (Bool True) of
                     Inl e \<Rightarrow> Inl e
                   | Inr (done, w1) \<Rightarrow> if done then Inr (v, (w1, tr)) else Inl TypeError)
              | Some (Proxy target callback h) \<Rightarrow>
                  (case trap_set body target (Sym SKIP) (Bool True) st of
                     Inl e \<Rightarrow> Inl e
                   | Inr (done, st1) \<Rightarrow> if done then Inr (v, st1) else Inl TypeError))
         | Fun f \<Rightarrow> Inr (v, st)
         | Handler t c s \<Rightarrow> Inr (v, st)
         | Builtin p n \<Rightarrow> Inr (v, st)
         | _ \<Rightarrow> Inl TypeError))"

text \<open>The object \<open>markRaw\<close> leaves behind, when the mark was not there yet.\<close>

definition marked :: "obj \<Rightarrow> obj" where
  "marked ob = ob\<lparr>props := setValue (Sym SKIP) (Bool True) (props ob)\<rparr>"

text \<open>
  What user code can do with the module: call its three functions, and use a view, where
  the engine runs the trap of the view's handler on the view's target. A method call
  \<open>view[key](a1, a2)\<close> on a view of a collection calls the special handler at \<open>key\<close>
  (iterating is not modelled). An operation on something that is not a view does not
  reach the module.
\<close>

datatype op =
    Wrap val callback
  | Unwrap val
  | Mark val
  | Get addr val
  | Put addr val val
  | Delete addr val
  | In addr val
  | OwnKeys addr
  | CallMethod addr val val val

definition withTrace ::
  "event list \<Rightarrow> (error + ('a \<times> world)) option \<Rightarrow> (error + state) option" where
  "withTrace tr r = map_option (map_sum id (\<lambda>(v, w). (w, tr))) r"

definition callSpecial ::
  "bodies \<Rightarrow> special \<Rightarrow> addr \<Rightarrow> callback \<Rightarrow> val \<Rightarrow> val \<Rightarrow> state \<Rightarrow> (error + state) option" where
  "callSpecial body s target callback a1 a2 st =
     (case s of
        KeyObserver methodName \<Rightarrow>
          withTrace (snd st) (makeKeyObserver methodName target callback a1 (fst st))
      | DelegateAndNotify setterName getterName \<Rightarrow>
          Some (map_sum id snd (delegateAndNotify body setterName getterName target a1 a2 st))
      | ClearNotifier \<Rightarrow> Some (map_sum id snd (makeClearNotifier body target st))
      | SizeGetter \<Rightarrow> Some (Inl TypeError)
      | _ \<Rightarrow> Some (Inl Unmodelled))"

definition step :: "bodies \<Rightarrow> op \<Rightarrow> state \<Rightarrow> (error + state) option" where
  "step body operation st =
     (case st of (w, tr) \<Rightarrow>
        (case operation of
           Wrap v callback \<Rightarrow> withTrace tr (reactive v callback w)
         | Unwrap v \<Rightarrow> Some (map_sum id (\<lambda>r. st) (toRaw v w))
         | Mark v \<Rightarrow> Some (map_sum id snd (markRaw body v st))
         | Get p key \<Rightarrow>
             (case cellAt w p of
                Some (Proxy target callback BasicHandler) \<Rightarrow>
                  withTrace tr (trap_get target key callback w)
              | Some (Proxy target callback (CollectionsHandler t)) \<Rightarrow>
                  withTrace tr (collections_get t target key callback w)
              | _ \<Rightarrow> Some (Inl Unmodelled))
         | Put p key v \<Rightarrow>
             (case cellAt w p of
                Some (Proxy target callback h) \<Rightarrow>
                  Some (map_sum id snd (trap_set body target key v st))
              | _ \<Rightarrow> Some (Inl Unmodelled))
         | Delete p key \<Rightarrow>
             (case cellAt w p of
                Some (Proxy target callback h) \<Rightarrow>
                  Some (map_sum id snd (trap_deleteProperty body target key st))
              | _ \<Rightarrow> Some (Inl Unmodelled))
         | In p key \<Rightarrow>
             (case cellAt w p of
                Some (Proxy target callback h) \<Rightarrow>
                  withTrace tr (Some (trap_has target key callback w))
              | _ \<Rightarrow> Some (Inl Unmodelled))
         | OwnKeys p \<Rightarrow>
             (case cellAt w p of
                Some (Proxy target callback h) \<Rightarrow>
                  withTrace tr (Some (trap_ownKeys target callback w))
              | _ \<Rightarrow> Some (Inl Unmodelled))
         | CallMethod p key a1 a2 \<Rightarrow>
             (case cellAt w p of
                Some (Proxy target callback (CollectionsHandler t)) \<Rightarrow>
                  (case map_of (rawTypeToFuncHandlers t) key of
                     Some s \<Rightarrow> callSpecial body s target callback a1 a2 st
                   | None \<Rightarrow> Some (Inl Unmodelled))
              | _ \<Rightarrow> Some (Inl Unmodelled))))"

text \<open>A sequence of operations, up to the first exception.\<close>

fun run :: "bodies \<Rightarrow> op list \<Rightarrow> state \<Rightarrow> (error + state) option" where
  "run body [] st = Some (Inr st)"
| "run body (operation # rest) st =
     (case step body operation st of
        None \<Rightarrow> None
      | Some (Inl e) \<Rightarrow> Some (Inl e)
      | Some (Inr st1) \<Rightarrow> run body rest st1)"

text \<open>
  \<open>x\<close> is the object \<open>ob\<close>, no view of \<open>x\<close> exists and the registry has no entry for \<open>x\<close>.
\<close>

definition pristine :: "world \<Rightarrow> addr \<Rightarrow> obj \<Rightarrow> bool" where
  "pristine w x ob =
     (rawAt w x = Some ob
      \<and> (\<forall>p target callback h. cellAt w p = Some (Proxy target callback h) \<longrightarrow> target \<noteq> x)
      \<and> map_of (targetToKeysToCallbacks w) x = None)"

text \<open>
  The worlds in which \<open>notifyReactives\<close> enters the callbacks of a snapshot, one after
  the other: each callback is cleared, entered, and its body's result is where the next
  one starts.
\<close>

fun runs :: "bodies \<Rightarrow> callback list \<Rightarrow> world \<Rightarrow> (callback \<times> world) list" where
  "runs body [] w = []"
| "runs body (c # cs) w =
     (let w1 = clearReactivesForCallback c w in (c, w1) # runs body cs (body c w1))"

text \<open>Running any other callback leaves the subscriptions of \<open>c2\<close> as they are.\<close>

definition keeps :: "bodies \<Rightarrow> callback \<Rightarrow> bool" where
  "keeps body c2 = (\<forall>c w t k. c \<noteq> c2 \<longrightarrow>
     (c2 \<in> set (subscribers (body c w) t k)) = (c2 \<in> set (subscribers w t k)))"

text \<open>The module as loaded: the three tables are empty; the heap is the caller's.\<close>

definition initialWorld :: "cell list \<Rightarrow> world" where
  "initialWorld h = \<lparr>heap = h, targetToKeysToCallbacks = [], callbacksToTargets = [],
     reactiveCache = []\<rparr>"



text \<open>What a read of \<open>key\<close> on a raw object yields: the own property, else the built-in prototype's.\<close>

definition ownOrInherited :: "obj \<Rightarrow> val \<Rightarrow> val" where
  "ownOrInherited ob key =
     (case map_of (props ob) key of
        Some p \<Rightarrow> pvalue p
      | None \<Rightarrow> (case inherited (kind ob) key of Data v wr \<Rightarrow> v | _ \<Rightarrow> Undefined))"

text \<open>Every view in \<open>reactiveCache\<close> is a proxy of its target and callback: \<open>reactive\<close> is the
  only writer of the cache.\<close>

definition cacheOk :: "world \<Rightarrow> bool" where
  "cacheOk w = (\<forall>a cb p. map_of (get_or [] (reactiveCache w) a) cb = Some p \<longrightarrow>
     (\<exists>h. cellAt w p = Some (Proxy a cb h)))"

text \<open>A callback that does nothing.\<close>

definition idle :: bodies where
  "idle c w = w"

section \<open>The registry: lookups after each operation\<close>

lemma get_or_update: "get_or d (AList.update k v al) k' = (if k' = k then v else get_or d al k')"
  by (simp add: get_or_def update_conv')

lemma subscribers_observe:
  "subscribers (observeTargetKey t k c w) t' k' =
     (if t' = t \<and> k' = k then set_add c (subscribers w t k) else subscribers w t' k')"
  by (simp add: subscribers_def observeTargetKey_def Let_def get_or_update)

lemma targetsOf_observe:
  "targetsOf (observeTargetKey t k c w) c' =
     (if c' = c then set_add t (targetsOf w c) else targetsOf w c')"
  by (simp add: targetsOf_def observeTargetKey_def Let_def get_or_update)

lemma set_set_add: "set (set_add x xs) = insert x (set xs)"
  by (auto simp: set_add_def)

lemma indexed_observe: "indexed w \<Longrightarrow> indexed (observeTargetKey t k c w)"
  by (auto simp: indexed_def subscribers_observe targetsOf_observe set_set_add)

lemma map_of_strip:
  "map_of (map (\<lambda>(k, cs). (k, removeAll c cs)) km) k = map_option (removeAll c) (map_of km k)"
  by (induction km) auto

lemma strip_idem:
  "map (\<lambda>(k, cs). (k, removeAll c cs)) (map (\<lambda>(k, cs). (k, removeAll c cs)) km) =
   map (\<lambda>(k, cs). (k, removeAll c cs)) km"
  by (induction km) auto

lemma map_of_clearTarget:
  "map_of (clearTarget c a t2k) t =
     (if t = a then map_option (map (\<lambda>(k, cs). (k, removeAll c cs))) (map_of t2k t)
      else map_of t2k t)"
  by (auto simp: clearTarget_def update_conv' split: option.splits)

lemma map_of_fold_clearTarget:
  "map_of (fold (clearTarget c) ts t2k) t =
     (if t \<in> set ts
      then map_option (map (\<lambda>(k, cs). (k, removeAll c cs))) (map_of t2k t)
      else map_of t2k t)"
proof (induction ts arbitrary: t2k)
  case Nil
  show ?case by simp
next
  case (Cons a ts)
  show ?case
  proof (cases "map_of t2k t")
    case None
    then show ?thesis by (auto simp: Cons.IH map_of_clearTarget)
  next
    case (Some km)
    then show ?thesis by (auto simp: Cons.IH map_of_clearTarget strip_idem)
  qed
qed

lemma subscribers_clear:
  "subscribers (clearReactivesForCallback c w) t k =
     (if t \<in> set (targetsOf w c) then removeAll c (subscribers w t k) else subscribers w t k)"
  by (auto simp: subscribers_def clearReactivesForCallback_def targetsOf_def get_or_def
      map_of_fold_clearTarget map_of_strip split: option.splits)

lemma targetsOf_clear:
  "targetsOf (clearReactivesForCallback c w) c' = (if c' = c then [] else targetsOf w c')"
  by (auto simp: targetsOf_def clearReactivesForCallback_def get_or_def update_conv'
      split: option.splits)

lemma cleared: "indexed w \<Longrightarrow> c \<notin> set (subscribers (clearReactivesForCallback c w) t k)"
  by (auto simp: subscribers_clear indexed_def)

lemma indexed_clear: "indexed w \<Longrightarrow> indexed (clearReactivesForCallback c w)"
  unfolding indexed_def
  by (auto simp: subscribers_clear targetsOf_clear split: if_splits)

subsection \<open>The notification loop\<close>

lemma notifyLoop_runs:
  "notifyLoop body cs (w, tr) =
     (foldl (\<lambda>w' c. body c (clearReactivesForCallback c w')) w cs,
      tr @ map (\<lambda>(c, w'). Called c w') (runs body cs w))"
  by (induction cs arbitrary: w tr) (simp_all add: Let_def)

lemma runs_fst: "map fst (runs body cs w) = cs"
  by (induction cs arbitrary: w) (simp_all add: Let_def)

lemma runs_cleared:
  assumes "\<forall>c w'. indexed w' \<longrightarrow> indexed (body c w')"
  shows "indexed w \<Longrightarrow> (c, wc) \<in> set (runs body cs w) \<Longrightarrow> c \<notin> set (subscribers wc t k)"
proof (induction cs arbitrary: w)
  case Nil
  then show ?case by simp
next
  case (Cons a cs)
  let ?w1 = "clearReactivesForCallback a w"
  have i1: "indexed ?w1" using Cons.prems(1) by (rule indexed_clear)
  have i2: "indexed (body a ?w1)" using assms i1 by blast
  from Cons.prems(2) consider "c = a \<and> wc = ?w1" | "(c, wc) \<in> set (runs body cs (body a ?w1))"
    by (auto simp: Let_def)
  then show ?case
  proof cases
    case 1
    then show ?thesis using cleared [OF Cons.prems(1)] by simp
  next
    case 2
    then show ?thesis using Cons.IH [OF i2] by blast
  qed
qed

lemma fold_keeps:
  "keeps body c2 \<Longrightarrow> c2 \<notin> set cs \<Longrightarrow>
   (c2 \<in> set (subscribers (foldl (\<lambda>w' c. body c (clearReactivesForCallback c w')) w cs) t k))
     = (c2 \<in> set (subscribers w t k))"
proof (induction cs arbitrary: w)
  case Nil
  show ?case by simp
next
  case (Cons a cs)
  have "a \<noteq> c2" using Cons.prems(2) by auto
  then have "(c2 \<in> set (subscribers (body a (clearReactivesForCallback a w)) t k))
      = (c2 \<in> set (subscribers w t k))"
    using Cons.prems(1) by (auto simp: keeps_def subscribers_clear)
  then show ?case using Cons by simp
qed

lemma runs_resubscribed:
  assumes "\<forall>c2. keeps body c2"
  shows "distinct cs \<Longrightarrow> (c, wc) \<in> set (runs body cs w) \<Longrightarrow>
    (c \<in> set (subscribers (foldl (\<lambda>w' c. body c (clearReactivesForCallback c w')) w cs) t k))
      = (c \<in> set (subscribers (body c wc) t k))"
proof (induction cs arbitrary: w)
  case Nil
  then show ?case by simp
next
  case (Cons a cs)
  let ?w1 = "clearReactivesForCallback a w"
  from Cons.prems(2) consider "c = a \<and> wc = ?w1" | "(c, wc) \<in> set (runs body cs (body a ?w1))"
    by (auto simp: Let_def)
  then show ?case
  proof cases
    case 1
    have "a \<notin> set cs" using Cons.prems(1) by simp
    then show ?thesis using 1 fold_keeps [of body a cs "body a ?w1" t k] assms by simp
  next
    case 2
    then show ?thesis using Cons.IH [of "body a ?w1"] Cons.prems(1) by simp
  qed
qed

lemma notifyReactives_unfold:
  "notifyReactives body t k (w, tr) =
     notifyLoop body (subscribers w t k) (w, tr @ [Notified t k])"
  by (simp add: notifyReactives_def subscribers_def get_or_def split: option.splits)

lemma indexed_initial: "indexed (initialWorld h)"
  by (simp add: indexed_def initialWorld_def subscribers_def get_or_def)

lemma subscribers_initial: "subscribers (initialWorld h) t k = []"
  by (simp add: subscribers_def initialWorld_def get_or_def)

lemma keeps_observe: "keeps (\<lambda>c. observeTargetKey t k c) c2"
  by (simp add: keeps_def subscribers_observe set_set_add)

subsection \<open>The heap and the native operations\<close>





lemma notifications_append: "notifications (xs @ ys) = notifications xs @ notifications ys"
  by (simp add: notifications_def)

lemma notifications_Notified: "notifications (Notified t k # es) = (t, k) # notifications es"
  by (simp add: notifications_def)

lemma notifications_called: "notifications (map (\<lambda>(c, w'). Called c w') xs) = []"
  by (induction xs) (auto simp: notifications_def)

lemma notifications_notify:
  "notifications (snd (notifyReactives body t k (w, tr))) = notifications tr @ [(t, k)]"
  by (simp add: notifyReactives_unfold notifyLoop_runs notifications_append
      notifications_called notifications_Notified)

lemma rawAt_putRaw:
  "rawAt w a = Some ob \<Longrightarrow> rawAt (putRaw a ob' w) a' = (if a' = a then Some ob' else rawAt w a')"
  by (auto simp: rawAt_def cellAt_def putRaw_def split: if_splits option.splits cell.splits)

lemma arrayIndex_length: "arrayIndex (Str ''length'') = None"
  by (simp add: arrayIndex_def digit_def)


lemma arrayIndex_not_length: "arrayIndex key = Some i \<Longrightarrow> key \<noteq> Str ''length''"
  using arrayIndex_length by auto






















lemma rawAt_initial:
  "rawAt (initialWorld h) a = (if a < length h then (case h ! a of Raw ob \<Rightarrow> Some ob | _ \<Rightarrow> None) else None)"
  by (simp add: rawAt_def cellAt_def initialWorld_def)

lemma notifications_Nil: "notifications [] = []"
  by (simp add: notifications_def)

section \<open>Notification\<close>

text \<open>
  Claim C1. \<open>notifyReactives target key\<close> works on the callbacks subscribed to
  \<open>(target, key)\<close> when it is called, whatever the callbacks do to the tables meanwhile:
  it enters exactly these, once each, in the order of the Set. Each is entered in a world
  where it has no subscription left on any target and any key, and what a callback holds
  at the end is what it subscribed to while it ran (when no callback touches the
  subscriptions of another).
\<close>

theorem notifyReactives_clears_then_calls:
  assumes "indexed w" and "\<forall>c w'. indexed w' \<longrightarrow> indexed (body c w')"
  shows "notifyReactives body t k (w, tr) =
           (foldl (\<lambda>w' c. body c (clearReactivesForCallback c w')) w (subscribers w t k),
            tr @ Notified t k # map (\<lambda>(c, w'). Called c w') (runs body (subscribers w t k) w))
         \<and> map fst (runs body (subscribers w t k) w) = subscribers w t k
         \<and> (\<forall>(c, wc) \<in> set (runs body (subscribers w t k) w).
               \<forall>t' k'. c \<notin> set (subscribers wc t' k'))
         \<and> ((\<forall>c2. keeps body c2) \<and> distinct (subscribers w t k) \<longrightarrow>
              (\<forall>(c, wc) \<in> set (runs body (subscribers w t k) w). \<forall>t' k'.
                 (c \<in> set (subscribers (fst (notifyReactives body t k (w, tr))) t' k'))
                   = (c \<in> set (subscribers (body c wc) t' k'))))"
proof -
  let ?cs = "subscribers w t k"
  have a: "notifyReactives body t k (w, tr) =
      (foldl (\<lambda>w' c. body c (clearReactivesForCallback c w')) w ?cs,
       tr @ Notified t k # map (\<lambda>(c, w'). Called c w') (runs body ?cs w))"
    by (simp add: notifyReactives_unfold notifyLoop_runs)
  have b: "map fst (runs body ?cs w) = ?cs" by (rule runs_fst)
  have c: "\<forall>(c, wc) \<in> set (runs body ?cs w). \<forall>t' k'. c \<notin> set (subscribers wc t' k')"
    using runs_cleared [OF assms(2) assms(1)] by blast
  have d: "(\<forall>c2. keeps body c2) \<and> distinct ?cs \<longrightarrow>
      (\<forall>(c, wc) \<in> set (runs body ?cs w). \<forall>t' k'.
         (c \<in> set (subscribers (fst (notifyReactives body t k (w, tr))) t' k'))
           = (c \<in> set (subscribers (body c wc) t' k')))"
    using runs_resubscribed [of body ?cs _ _ w] by (auto simp: a)
  from a b c d show ?thesis by blast
qed

theorem notifyReactives_clears_then_calls_witness:
  "indexed (observeTargetKey 0 (Str ''a'') 1 (observeTargetKey 0 (Str ''a'') 2
       (observeTargetKey 5 (Str ''b'') 1 (initialWorld []))))
   \<and> distinct [2, 1 :: callback]
   \<and> map fst (calls (snd (notifyReactives (\<lambda>c. observeTargetKey 0 (Str ''a'') c) 0 (Str ''a'')
         (observeTargetKey 0 (Str ''a'') 1 (observeTargetKey 0 (Str ''a'') 2
           (observeTargetKey 5 (Str ''b'') 1 (initialWorld []))), [])))) = [2, 1]
   \<and> 1 \<notin> set (subscribers (clearReactivesForCallback 1 (observeTargetKey 0 (Str ''a'') 2
         (clearReactivesForCallback 2
           (observeTargetKey 0 (Str ''a'') 1 (observeTargetKey 0 (Str ''a'') 2
             (observeTargetKey 5 (Str ''b'') 1 (initialWorld []))))))) 5 (Str ''b''))
   \<and> 1 \<in> set (subscribers (fst (notifyReactives (\<lambda>c. observeTargetKey 0 (Str ''a'') c)
         0 (Str ''a'')
         (observeTargetKey 0 (Str ''a'') 1 (observeTargetKey 0 (Str ''a'') 2
           (observeTargetKey 5 (Str ''b'') 1 (initialWorld []))), []))) 0 (Str ''a''))"
proof -
  let ?w = "observeTargetKey 0 (Str ''a'') 1 (observeTargetKey 0 (Str ''a'') 2
       (observeTargetKey 5 (Str ''b'') 1 (initialWorld [])))"
  let ?b = "\<lambda>c. observeTargetKey 0 (Str ''a'') c"
  let ?w2 = "clearReactivesForCallback 1 (observeTargetKey 0 (Str ''a'') 2
         (clearReactivesForCallback 2 ?w))"
  have i: "indexed ?w" by (intro indexed_observe indexed_initial)
  have p: "\<forall>c w'. indexed w' \<longrightarrow> indexed (?b c w')" by (simp add: indexed_observe)
  have q: "\<forall>c2. keeps ?b c2" by (simp add: keeps_observe)
  have d: "distinct [2, 1 :: callback]" by simp
  have s: "subscribers ?w 0 (Str ''a'') = [2, 1]"
    by (simp add: subscribers_observe subscribers_initial set_add_def)
  have r: "1 \<in> set (subscribers (?b 1 ?w2) 0 (Str ''a''))"
    by (simp add: subscribers_observe set_set_add)
  have m: "(1, ?w2) \<in> set (runs ?b [2, 1] ?w)" by (simp add: Let_def)
  note th = notifyReactives_clears_then_calls [OF i p, of 0 "Str ''a''" "[]", unfolded s]
  have e: "snd (notifyReactives ?b 0 (Str ''a'') (?w, [])) =
      [] @ Notified 0 (Str ''a'') # map (\<lambda>(c, w'). Called c w') (runs ?b [2, 1] ?w)"
    using th by simp
  have t1: "map fst (calls (snd (notifyReactives ?b 0 (Str ''a'') (?w, [])))) = [2, 1]"
    unfolding e by (simp add: calls_def Let_def)
  have t2: "1 \<notin> set (subscribers ?w2 5 (Str ''b''))" using th m by blast
  have t3: "1 \<in> set (subscribers (fst (notifyReactives ?b 0 (Str ''a'') (?w, []))) 0 (Str ''a''))"
    using th q d m r by blast
  from i d t1 t2 t3 show ?thesis by (intro conjI)
qed

section \<open>Clearing touches one callback only\<close>

text \<open>
  Claim C10. Clearing the subscriptions of a callback \<open>c\<close> leaves those of every other
  callback in place: on every target and key the Set holds the same other callbacks in the
  same order, and the reverse index of another callback is the same. Through a whole
  \<open>notifyReactives\<close> call, a callback that is not among those notified (and that the
  notified callbacks' own code leaves alone) keeps each of its subscriptions.
\<close>

lemma filter_removeAll_same:
  "filter (\<lambda>x. x \<noteq> c) (removeAll c xs) = filter (\<lambda>x. x \<noteq> c) xs"
  by (induction xs) auto

theorem clearing_is_per_callback:
  assumes "c2 \<noteq> c"
  shows "filter (\<lambda>x. x \<noteq> c) (subscribers (clearReactivesForCallback c w) t k)
           = filter (\<lambda>x. x \<noteq> c) (subscribers w t k)
         \<and> (c2 \<in> set (subscribers (clearReactivesForCallback c w) t k))
             = (c2 \<in> set (subscribers w t k))
         \<and> targetsOf (clearReactivesForCallback c w) c2 = targetsOf w c2
         \<and> (keeps body c2 \<and> c2 \<notin> set (subscribers w t' k') \<longrightarrow>
              (c2 \<in> set (subscribers (fst (notifyReactives body t' k' (w, tr))) t k))
                = (c2 \<in> set (subscribers w t k)))"
proof -
  have a: "filter (\<lambda>x. x \<noteq> c) (subscribers (clearReactivesForCallback c w) t k)
      = filter (\<lambda>x. x \<noteq> c) (subscribers w t k)"
    by (simp add: subscribers_clear filter_removeAll_same)
  have b: "(c2 \<in> set (subscribers (clearReactivesForCallback c w) t k))
      = (c2 \<in> set (subscribers w t k))"
    using assms by (simp add: subscribers_clear)
  have d: "targetsOf (clearReactivesForCallback c w) c2 = targetsOf w c2"
    using assms by (simp add: targetsOf_clear)
  have e: "keeps body c2 \<and> c2 \<notin> set (subscribers w t' k') \<longrightarrow>
      (c2 \<in> set (subscribers (fst (notifyReactives body t' k' (w, tr))) t k))
        = (c2 \<in> set (subscribers w t k))"
    by (simp add: notifyReactives_unfold notifyLoop_runs fold_keeps)
  from a b d e show ?thesis by blast
qed

theorem clearing_is_per_callback_witness:
  "(2 :: callback) \<noteq> 1
   \<and> keeps (\<lambda>c. observeTargetKey 5 (Str ''b'') c) 2
   \<and> 2 \<notin> set (subscribers (observeTargetKey 0 (Str ''a'') 1 (observeTargetKey 0 (Str ''a'') 2
         (observeTargetKey 5 (Str ''b'') 1 (initialWorld [])))) 5 (Str ''b''))
   \<and> 2 \<in> set (subscribers (clearReactivesForCallback 1
         (observeTargetKey 0 (Str ''a'') 1 (observeTargetKey 0 (Str ''a'') 2
           (observeTargetKey 5 (Str ''b'') 1 (initialWorld []))))) 0 (Str ''a''))
   \<and> 2 \<in> set (subscribers (fst (notifyReactives (\<lambda>c. observeTargetKey 5 (Str ''b'') c)
         5 (Str ''b'')
         (observeTargetKey 0 (Str ''a'') 1 (observeTargetKey 0 (Str ''a'') 2
           (observeTargetKey 5 (Str ''b'') 1 (initialWorld []))), []))) 0 (Str ''a''))"
proof -
  let ?w = "observeTargetKey 0 (Str ''a'') 1 (observeTargetKey 0 (Str ''a'') 2
       (observeTargetKey 5 (Str ''b'') 1 (initialWorld [])))"
  let ?b = "\<lambda>c. observeTargetKey 5 (Str ''b'') c"
  have n: "(2 :: callback) \<noteq> 1" by simp
  have q: "keeps ?b 2" by (rule keeps_observe)
  have s: "subscribers ?w 0 (Str ''a'') = [2, 1]"
    by (simp add: subscribers_observe subscribers_initial set_add_def)
  have s': "subscribers ?w 5 (Str ''b'') = [1]"
    by (simp add: subscribers_observe subscribers_initial set_add_def)
  have m1: "(2 :: callback) \<in> set [2, 1]" and m2: "(2 :: callback) \<notin> set [1]" by simp_all
  note th = clearing_is_per_callback [OF n, of ?w 0 "Str ''a''" ?b 5 "Str ''b''" "[]",
      unfolded s s']
  have t1: "2 \<in> set (subscribers (clearReactivesForCallback 1 ?w) 0 (Str ''a''))"
    using th m1 by blast
  have t2: "2 \<in> set (subscribers (fst (notifyReactives ?b 5 (Str ''b'') (?w, []))) 0 (Str ''a''))"
    using th q m1 m2 by blast
  have t0: "2 \<notin> set (subscribers ?w 5 (Str ''b''))" unfolding s' by (rule m2)
  from n q t0 t1 t2 show ?thesis by (intro conjI)
qed

section \<open>Writing through a view of a record or a list\<close>










section \<open>Deleting through a view of a record or a list\<close>

lemma Reflect_delete_result:
  "rawAt w a = Some ob \<Longrightarrow>
   Reflect_deleteProperty w a key =
     Inr ((case map_of (props ob) key of None \<Rightarrow> True | Some p \<Rightarrow> configurable p),
          (if hasOwnProperty w a key
              \<and> (case map_of (props ob) key of None \<Rightarrow> True | Some p \<Rightarrow> configurable p)
           then putRaw a (ob\<lparr>props := AList.delete key (props ob)\<rparr>) w else w))"
  by (cases "map_of (props ob) key") (simp_all add: Reflect_deleteProperty_def hasOwnProperty_def)

lemma Reflect_delete_gone:
  "Reflect_deleteProperty w a key = Inr (True, w1) \<Longrightarrow> \<not> hasOwnProperty w1 a key"
  by (auto simp: Reflect_deleteProperty_def hasOwnProperty_def rawAt_putRaw delete_conv'
      split: option.splits if_splits)

lemma Reflect_delete_kept:
  "Reflect_deleteProperty w a key = Inr (False, w1) \<Longrightarrow> w1 = w \<and> hasOwnProperty w a key"
  by (auto simp: Reflect_deleteProperty_def hasOwnProperty_def split: option.splits if_splits)

lemma Reflect_delete_others:
  "Reflect_deleteProperty w a key = Inr (ret, w1) \<Longrightarrow> k \<noteq> key \<Longrightarrow>
   hasOwnProperty w1 a k = hasOwnProperty w a k \<and> Reflect_get w1 a k = Reflect_get w a k"
  by (auto simp: Reflect_deleteProperty_def hasOwnProperty_def Reflect_get_def rawAt_putRaw
      delete_conv' split: option.splits if_splits)

lemma notifications_delete:
  "notifications (snd (notifyReactives body t k (notifyReactives body t (Sym KEYCHANGES) (w1, tr))))
   = notifications tr @ [(t, Sym KEYCHANGES), (t, k)]"
proof -
  obtain wa tra where st1: "notifyReactives body t (Sym KEYCHANGES) (w1, tr) = (wa, tra)"
    by (cases "notifyReactives body t (Sym KEYCHANGES) (w1, tr)")
  have "notifications tra = notifications tr @ [(t, Sym KEYCHANGES)]"
    using notifications_notify [of body t "Sym KEYCHANGES" w1 tr] by (simp add: st1)
  then show ?thesis by (simp add: st1 notifications_notify)
qed

text \<open>
  Claim C4 reads: deleting a key through the view performs the removal. The
  \<open>deleteProperty\<close> trap hands the removal to \<open>Reflect.deleteProperty\<close>, which keeps a
  non-configurable property: of the array \<open>[]\<close> the trap keeps \<open>length\<close>, returns \<open>false\<close>,
  and still notifies twice.
\<close>

theorem trap_deleteProperty_counterexample:
  "trap_deleteProperty idle 0 (Str ''length'')
     (initialWorld [Raw \<lparr>kind = KArray,
        props = [(Str ''length'', \<lparr>pvalue = Num 0, writable = True, configurable = False\<rparr>)],
        entries = []\<rparr>], [])
   = Inr (False,
       (initialWorld [Raw \<lparr>kind = KArray,
          props = [(Str ''length'', \<lparr>pvalue = Num 0, writable = True, configurable = False\<rparr>)],
          entries = []\<rparr>],
        [Notified 0 (Sym KEYCHANGES), Notified 0 (Str ''length'')]))"
  by (simp add: trap_deleteProperty_def Reflect_deleteProperty_def rawAt_def cellAt_def
      initialWorld_def notifyReactives_def)

text \<open>
  Claim C4, as the source has it. The \<open>deleteProperty\<close> trap hands the removal to
  \<open>Reflect.deleteProperty\<close> and returns its result: \<open>true\<close> when the key is absent (the heap
  is as it was) or the property is configurable (the property is removed and the others
  are as they were), \<open>false\<close> when the property is not configurable (it is kept). In all
  three cases it then calls \<open>notifyReactives(target, KEYCHANGES)\<close> and
  \<open>notifyReactives(target, key)\<close>, in this order.
\<close>

theorem trap_deleteProperty_notifies:
  assumes "rawAt w target = Some ob"
  shows "\<exists>ret w1 st'. Reflect_deleteProperty w target key = Inr (ret, w1)
     \<and> trap_deleteProperty body target key (w, tr) = Inr (ret, st')
     \<and> ret = (case map_of (props ob) key of None \<Rightarrow> True | Some p \<Rightarrow> configurable p)
     \<and> w1 = (if hasOwnProperty w target key \<and> ret
              then putRaw target (ob\<lparr>props := AList.delete key (props ob)\<rparr>) w else w)
     \<and> (ret \<longrightarrow> \<not> hasOwnProperty w1 target key)
     \<and> (\<not> ret \<longrightarrow> hasOwnProperty w1 target key)
     \<and> (\<forall>k. k \<noteq> key \<longrightarrow> hasOwnProperty w1 target k = hasOwnProperty w target k
            \<and> Reflect_get w1 target k = Reflect_get w target k)
     \<and> st' = notifyReactives body target key
               (notifyReactives body target (Sym KEYCHANGES) (w1, tr))
     \<and> notifications (snd st') = notifications tr @ [(target, Sym KEYCHANGES), (target, key)]"
proof -
  define ret where
    "ret = (case map_of (props ob) key of None \<Rightarrow> True | Some p \<Rightarrow> configurable p)"
  define w1 where "w1 = (if hasOwnProperty w target key \<and> ret
      then putRaw target (ob\<lparr>props := AList.delete key (props ob)\<rparr>) w else w)"
  have d: "Reflect_deleteProperty w target key = Inr (ret, w1)"
    unfolding ret_def w1_def by (rule Reflect_delete_result [OF assms])
  let ?st2 = "notifyReactives body target key
      (notifyReactives body target (Sym KEYCHANGES) (w1, tr))"
  have run: "trap_deleteProperty body target key (w, tr) = Inr (ret, ?st2)"
    by (simp add: trap_deleteProperty_def d)
  have gone: "ret \<longrightarrow> \<not> hasOwnProperty w1 target key"
    using Reflect_delete_gone [of w target key w1] d by (cases ret) simp_all
  have kept: "\<not> ret \<longrightarrow> hasOwnProperty w1 target key"
    using Reflect_delete_kept [of w target key w1] d by (cases ret) simp_all
  have others: "\<forall>k. k \<noteq> key \<longrightarrow> hasOwnProperty w1 target k = hasOwnProperty w target k
      \<and> Reflect_get w1 target k = Reflect_get w target k"
    using Reflect_delete_others [OF d] by blast
  have n: "notifications (snd ?st2) = notifications tr @ [(target, Sym KEYCHANGES), (target, key)]"
    by (rule notifications_delete)
  have r: "ret = (case map_of (props ob) key of None \<Rightarrow> True | Some p \<Rightarrow> configurable p)"
    by (rule ret_def)
  have w: "w1 = (if hasOwnProperty w target key \<and> ret
      then putRaw target (ob\<lparr>props := AList.delete key (props ob)\<rparr>) w else w)"
    by (rule w1_def)
  show ?thesis
    using d run r w gone kept others n by blast
qed

theorem trap_deleteProperty_notifies_witness:
  "rawAt (initialWorld [Raw \<lparr>kind = KObject,
       props = [(Str ''a'', dataProperty (Num 1)), (Str ''b'', dataProperty (Num 2))],
       entries = []\<rparr>]) 0
     = Some \<lparr>kind = KObject,
         props = [(Str ''a'', dataProperty (Num 1)), (Str ''b'', dataProperty (Num 2))],
         entries = []\<rparr>
   \<and> (\<exists>st'. trap_deleteProperty idle 0 (Str ''a'')
         (initialWorld [Raw \<lparr>kind = KObject,
            props = [(Str ''a'', dataProperty (Num 1)), (Str ''b'', dataProperty (Num 2))],
            entries = []\<rparr>], [])
        = Inr (True, st')
        \<and> st' = notifyReactives idle 0 (Str ''a'') (notifyReactives idle 0 (Sym KEYCHANGES)
            (initialWorld [Raw \<lparr>kind = KObject, props = [(Str ''b'', dataProperty (Num 2))],
               entries = []\<rparr>], []))
        \<and> notifications (snd st') = [(0, Sym KEYCHANGES), (0, Str ''a'')])"
proof -
  let ?ob = "\<lparr>kind = KObject,
      props = [(Str ''a'', dataProperty (Num 1)), (Str ''b'', dataProperty (Num 2))],
      entries = []\<rparr>"
  let ?ob' = "\<lparr>kind = KObject, props = [(Str ''b'', dataProperty (Num 2))], entries = []\<rparr>"
  let ?w = "initialWorld [Raw ?ob]"
  have r: "rawAt ?w 0 = Some ?ob" by (simp add: rawAt_initial)
  have h: "hasOwnProperty ?w 0 (Str ''a'')" by (simp add: hasOwnProperty_def r)
  have c: "(case map_of (props ?ob) (Str ''a'') of None \<Rightarrow> True | Some p \<Rightarrow> configurable p)"
    by (simp add: dataProperty_def)
  have p: "putRaw 0 (?ob\<lparr>props := AList.delete (Str ''a'') (props ?ob)\<rparr>) ?w = initialWorld [Raw ?ob']"
    by (simp add: putRaw_def initialWorld_def)
  note th = trap_deleteProperty_notifies [OF r, of "Str ''a''" idle "[]"]
  from th obtain ret w1 st' where
    run: "trap_deleteProperty idle 0 (Str ''a'') (?w, []) = Inr (ret, st')" and
    ret: "ret = (case map_of (props ?ob) (Str ''a'') of None \<Rightarrow> True | Some p \<Rightarrow> configurable p)" and
    w1: "w1 = (if hasOwnProperty ?w 0 (Str ''a'') \<and> ret
      then putRaw 0 (?ob\<lparr>props := AList.delete (Str ''a'') (props ?ob)\<rparr>) ?w else ?w)" and
    st: "st' = notifyReactives idle 0 (Str ''a'') (notifyReactives idle 0 (Sym KEYCHANGES) (w1, []))" and
    n: "notifications (snd st') = notifications [] @ [(0, Sym KEYCHANGES), (0, Str ''a'')]"
    by blast
  have ret using ret c by blast
  then have "w1 = initialWorld [Raw ?ob']" using w1 h p by simp
  with \<open>ret\<close> run st n
  have "\<exists>st'. trap_deleteProperty idle 0 (Str ''a'') (?w, []) = Inr (True, st')
      \<and> st' = notifyReactives idle 0 (Str ''a'') (notifyReactives idle 0 (Sym KEYCHANGES)
            (initialWorld [Raw ?ob'], []))
      \<and> notifications (snd st') = [(0, Sym KEYCHANGES), (0, Str ''a'')]"
    by (intro exI [of _ st']) (simp add: notifications_Nil)
  with r show ?thesis by (intro conjI)
qed


section \<open>The probe decides whether \<open>reactive\<close> throws\<close>

subsection \<open>\<open>reactive\<close> on a raw object\<close>


lemma cellAt_rawAt: "rawAt w a = Some ob \<Longrightarrow> cellAt w a = Some (Raw ob)"
  by (auto simp: rawAt_def split: option.splits cell.splits)

lemma inherited_sym:
  "s \<noteq> TO_STRING_TAG \<Longrightarrow> s \<noteq> ITERATOR \<Longrightarrow> inherited k (Sym s) = Absent"
  by (cases s) (simp_all add: inherited_def)

lemma inherited_toStringTag:
  "inherited k (Sym TO_STRING_TAG) =
     (case k of KSet \<Rightarrow> Data (Str ''Set'') False | KMap \<Rightarrow> Data (Str ''Map'') False
      | KWeakMap \<Rightarrow> Data (Str ''WeakMap'') False | KPromise \<Rightarrow> Data (Str ''Promise'') False
      | _ \<Rightarrow> Absent)"
  by (simp add: inherited_def)

lemma inherited_tag: "inherited k (Sym TO_STRING_TAG) \<noteq> Unknown"
  by (cases k) (simp_all add: inherited_toStringTag)

lemma Reflect_get_raw:
  "rawAt w a = Some ob \<Longrightarrow> s \<noteq> ITERATOR \<Longrightarrow>
   Reflect_get w a (Sym s) = Inr (ownOrInherited ob (Sym s))"
  using inherited_tag [of "kind ob"] inherited_sym [of s "kind ob"]
  by (cases "s = TO_STRING_TAG")
    (auto simp: Reflect_get_def ownOrInherited_def split: option.splits member.splits)

lemma rawType_raw:
  "rawAt w a = Some ob \<Longrightarrow>
   rawType (Ref a) w = Inr (tagOr (builtinTag (kind ob)) (ownOrInherited ob (Sym TO_STRING_TAG)), w)"
  by (simp add: rawType_def cellAt_rawAt Reflect_get_raw)

lemma canBeMadeReactive_raw:
  "rawAt w a = Some ob \<Longrightarrow>
   canBeMadeReactive (Ref a) w =
     Inr (tagOr (builtinTag (kind ob)) (ownOrInherited ob (Sym TO_STRING_TAG))
            \<in> set SUPPORTED_RAW_TYPES, w)"
  by (simp add: canBeMadeReactive_def typeOf_def rawType_raw)

lemma canBeMadeReactive_primitive:
  "typeOf v \<noteq> ''object'' \<Longrightarrow> canBeMadeReactive v w = Inr (False, w)"
  by (simp add: canBeMadeReactive_def)

lemma canBeMadeReactive_Null: "canBeMadeReactive Null w = Inr (False, w)"
  by (simp add: canBeMadeReactive_def rawType_def SUPPORTED_RAW_TYPES_def typeOf_def)

lemma inOperator_raw:
  "rawAt w a = Some ob \<Longrightarrow>
   inOperator (Sym SKIP) a w = Inr (map_of (props ob) (Sym SKIP) \<noteq> None, w)"
  by (simp add: inOperator_def cellAt_rawAt Reflect_has_def inherited_sym split: option.splits)

lemma readTARGET_raw:
  "rawAt w a = Some ob \<Longrightarrow> readTARGET (Ref a) w = Inr (ownOrInherited ob (Sym TARGET))"
  by (simp add: readTARGET_def cellAt_rawAt Reflect_get_raw)

lemma reactive_raw:
  assumes "rawAt w a = Some ob" and "map_of (props ob) (Sym TARGET) = None"
  shows "reactive (Ref a) cb w =
     (if tagOr (builtinTag (kind ob)) (ownOrInherited ob (Sym TO_STRING_TAG))
           \<notin> set SUPPORTED_RAW_TYPES
      then Some (Inl CannotMakeReactive)
      else if map_of (props ob) (Sym SKIP) \<noteq> None then Some (Inr (Ref a, w))
      else Some (cachedOrNew a cb w))"
proof -
  have t: "ownOrInherited ob (Sym TARGET) = Undefined"
    using assms(2) by (simp add: ownOrInherited_def inherited_sym)
  show ?thesis
    by (subst reactive.simps)
       (simp add: canBeMadeReactive_raw [OF assms(1)] inOperator_raw [OF assms(1)]
          readTARGET_raw [OF assms(1)] t truthy_def)
qed

lemma ensureCache_heap: "heap (ensureCache a w) = heap w"
  by (simp add: ensureCache_def)

lemma ensureCache_t2k: "targetToKeysToCallbacks (ensureCache a w) = targetToKeysToCallbacks w"
  by (simp add: ensureCache_def)

lemma ensureCache_c2t: "callbacksToTargets (ensureCache a w) = callbacksToTargets w"
  by (simp add: ensureCache_def)

lemma ensureCache_get_or: "get_or [] (reactiveCache (ensureCache a w)) a' = get_or [] (reactiveCache w) a'"
  by (simp add: ensureCache_def get_or_def update_conv')

lemma ensureCache_rawAt: "rawAt (ensureCache a w) a' = rawAt w a'"
  by (simp add: rawAt_def cellAt_def ensureCache_heap)

lemmas ensureCache_simps = ensureCache_heap ensureCache_t2k ensureCache_c2t
  ensureCache_get_or ensureCache_rawAt

lemma cachedOrNew_raw:
  assumes "rawAt w a = Some ob"
  shows "cachedOrNew a cb w =
     (case map_of (get_or [] (reactiveCache w) a) cb of
        Some p \<Rightarrow> Inr (Ref p, ensureCache a w)
      | None \<Rightarrow>
          Inr (Ref (length (heap w)),
            (ensureCache a w)\<lparr>heap := heap w @
                [Proxy a cb (handlerFor (tagOr (builtinTag (kind ob))
                   (ownOrInherited ob (Sym TO_STRING_TAG))))],
              reactiveCache := AList.update a
                (AList.update cb (length (heap w)) (get_or [] (reactiveCache w) a))
                (reactiveCache (ensureCache a w))\<rparr>))"
proof -
  have r: "rawAt (ensureCache a w) a = Some ob" using assms by (simp add: ensureCache_simps)
  show ?thesis
    by (simp add: cachedOrNew_def Let_def rawType_raw [OF r] ensureCache_simps
        split: option.splits)
qed

lemma cachedOrNew_defined:
  "rawAt w a = Some ob \<Longrightarrow> \<exists>r w'. cachedOrNew a cb w = Inr (r, w')"
  by (simp add: cachedOrNew_raw split: option.splits)


lemma reactive_not_object:
  "typeOf v \<noteq> ''object'' \<or> v = Null \<Longrightarrow> reactive v cb w = Some (Inl CannotMakeReactive)"
  by (subst reactive.simps) (auto simp: canBeMadeReactive_primitive canBeMadeReactive_Null)

lemma typeOf_object: "typeOf v = ''object'' \<Longrightarrow> v = Null \<or> (\<exists>a. v = Ref a)"
  by (cases v) (simp_all add: typeOf_def)

lemma probe_by_kind:
  "map_of (props ob) (Sym TO_STRING_TAG) = None \<Longrightarrow>
   (tagOr (builtinTag (kind ob)) (ownOrInherited ob (Sym TO_STRING_TAG)) \<in> set SUPPORTED_RAW_TYPES)
     = (kind ob \<in> {KObject, KArray, KSet, KMap, KWeakMap})"
  by (cases "kind ob")
     (simp_all add: ownOrInherited_def inherited_toStringTag tagOr_def builtinTag_def SUPPORTED_RAW_TYPES_def)


text \<open>
  Claim C9. On a value that is not a view, \<open>reactive\<close> throws "Cannot make the given
  value reactive" exactly when \<open>canBeMadeReactive\<close> answers false, and returns otherwise.
  The probe answers false on every value whose \<open>typeof\<close> is not \<open>object\<close> (primitives,
  functions) and on \<open>null\<close>; on an object without a \<open>Symbol.toStringTag\<close> of its own it
  answers true exactly for a plain object, an array, a Set, a Map and a WeakMap.
\<close>

theorem reactive_throws_iff_probe_rejects:
  assumes "\<forall>a. v = Ref a \<longrightarrow> (\<exists>ob. rawAt w a = Some ob \<and> map_of (props ob) (Sym TARGET) = None)"
  shows "(reactive v cb w = Some (Inl CannotMakeReactive)) = (canBeMadeReactive v w = Inr (False, w))
    \<and> (canBeMadeReactive v w \<noteq> Inr (False, w) \<longrightarrow>
         canBeMadeReactive v w = Inr (True, w) \<and> (\<exists>r w'. reactive v cb w = Some (Inr (r, w'))))
    \<and> (typeOf v \<noteq> ''object'' \<or> v = Null \<longrightarrow> canBeMadeReactive v w = Inr (False, w))
    \<and> (\<forall>a ob. v = Ref a \<and> rawAt w a = Some ob \<and> map_of (props ob) (Sym TO_STRING_TAG) = None \<longrightarrow>
         canBeMadeReactive v w = Inr (kind ob \<in> {KObject, KArray, KSet, KMap, KWeakMap}, w))"
proof (cases "typeOf v \<noteq> ''object'' \<or> v = Null")
  case True
  then have p: "canBeMadeReactive v w = Inr (False, w)"
    by (auto simp: canBeMadeReactive_primitive canBeMadeReactive_Null)
  have r: "reactive v cb w = Some (Inl CannotMakeReactive)"
    using True by (rule reactive_not_object)
  have "\<forall>a. v \<noteq> Ref a" using True by (auto simp: typeOf_def)
  then show ?thesis using p r by simp
next
  case False
  then obtain a where v: "v = Ref a" using typeOf_object by blast
  then obtain ob where ob: "rawAt w a = Some ob" and nt: "map_of (props ob) (Sym TARGET) = None"
    using assms by blast
  let ?can = "tagOr (builtinTag (kind ob)) (ownOrInherited ob (Sym TO_STRING_TAG))
      \<in> set SUPPORTED_RAW_TYPES"
  have p: "canBeMadeReactive v w = Inr (?can, w)"
    unfolding v by (rule canBeMadeReactive_raw [OF ob])
  have r: "reactive v cb w =
     (if \<not> ?can then Some (Inl CannotMakeReactive)
      else if map_of (props ob) (Sym SKIP) \<noteq> None then Some (Inr (Ref a, w))
      else Some (cachedOrNew a cb w))"
    unfolding v using reactive_raw [OF ob nt, of cb] by simp
  obtain r' w' where c: "cachedOrNew a cb w = Inr (r', w')"
    using cachedOrNew_defined [OF ob] by blast
  have k: "map_of (props ob) (Sym TO_STRING_TAG) = None \<longrightarrow>
      ?can = (kind ob \<in> {KObject, KArray, KSet, KMap, KWeakMap})"
    using probe_by_kind by blast
  show ?thesis
  proof (cases ?can)
    case True
    then show ?thesis using p r c k False ob v by auto
  next
    case False
    then show ?thesis using p r k ob v \<open>\<not> (typeOf v \<noteq> ''object'' \<or> v = Null)\<close> by auto
  qed
qed

theorem reactive_throws_iff_probe_rejects_witness:
  "reactive (Num 5) 3 (initialWorld []) = Some (Inl CannotMakeReactive)
   \<and> reactive (Ref 0) 3 (initialWorld [Raw \<lparr>kind = KDate, props = [], entries = []\<rparr>])
       = Some (Inl CannotMakeReactive)
   \<and> (\<exists>r w'. reactive (Ref 0) 3 (initialWorld [Raw \<lparr>kind = KMap, props = [], entries = []\<rparr>])
       = Some (Inr (r, w')))"
proof -
  let ?d = "\<lparr>kind = KDate, props = [], entries = []\<rparr>"
  let ?m = "\<lparr>kind = KMap, props = [], entries = []\<rparr>"
  have rd: "rawAt (initialWorld [Raw ?d]) 0 = Some ?d" by (simp add: rawAt_initial)
  have rm: "rawAt (initialWorld [Raw ?m]) 0 = Some ?m" by (simp add: rawAt_initial)
  have h1: "\<forall>a. Num 5 = Ref a \<longrightarrow>
      (\<exists>ob. rawAt (initialWorld []) a = Some ob \<and> map_of (props ob) (Sym TARGET) = None)"
    by simp
  have h2: "\<forall>a. Ref 0 = Ref a \<longrightarrow>
      (\<exists>ob. rawAt (initialWorld [Raw ?d]) a = Some ob \<and> map_of (props ob) (Sym TARGET) = None)"
    using rd by simp
  have h3: "\<forall>a. Ref 0 = Ref a \<longrightarrow>
      (\<exists>ob. rawAt (initialWorld [Raw ?m]) a = Some ob \<and> map_of (props ob) (Sym TARGET) = None)"
    using rm by simp
  have p1: "canBeMadeReactive (Num 5) (initialWorld []) = Inr (False, initialWorld [])"
    by (simp add: canBeMadeReactive_primitive typeOf_def)
  have p2: "canBeMadeReactive (Ref 0) (initialWorld [Raw ?d])
      = Inr (False, initialWorld [Raw ?d])"
    unfolding canBeMadeReactive_raw [OF rd]
    by (simp add: ownOrInherited_def inherited_toStringTag tagOr_def builtinTag_def
        SUPPORTED_RAW_TYPES_def)
  have p3: "canBeMadeReactive (Ref 0) (initialWorld [Raw ?m])
      \<noteq> Inr (False, initialWorld [Raw ?m])"
    unfolding canBeMadeReactive_raw [OF rm]
    by (simp add: ownOrInherited_def inherited_toStringTag tagOr_def builtinTag_def
        SUPPORTED_RAW_TYPES_def)
  have t1: "reactive (Num 5) 3 (initialWorld []) = Some (Inl CannotMakeReactive)"
    using reactive_throws_iff_probe_rejects [OF h1, of 3] p1 by blast
  have t2: "reactive (Ref 0) 3 (initialWorld [Raw ?d]) = Some (Inl CannotMakeReactive)"
    using reactive_throws_iff_probe_rejects [OF h2, of 3] p2 by blast
  have t3: "\<exists>r w'. reactive (Ref 0) 3 (initialWorld [Raw ?m]) = Some (Inr (r, w'))"
    using reactive_throws_iff_probe_rejects [OF h3, of 3] p3 by blast
  from t1 t2 t3 show ?thesis by (intro conjI)
qed


section \<open>Unwrapping\<close>

subsection \<open>The cache of views\<close>


lemma cacheOk_initial: "cacheOk (initialWorld h)"
  by (simp add: cacheOk_def initialWorld_def get_or_def)

lemma cachedOrNew_hit:
  assumes "rawAt w a = Some ob" and "map_of (get_or [] (reactiveCache w) a) cb = Some p"
  shows "cachedOrNew a cb w = Inr (Ref p, ensureCache a w)"
  by (simp add: cachedOrNew_raw [OF assms(1)] assms(2))

lemma cachedOrNew_miss:
  assumes "rawAt w a = Some ob" and "map_of (get_or [] (reactiveCache w) a) cb = None"
  shows "cachedOrNew a cb w =
     Inr (Ref (length (heap w)),
       (ensureCache a w)\<lparr>heap := heap w @
           [Proxy a cb (handlerFor (tagOr (builtinTag (kind ob))
              (ownOrInherited ob (Sym TO_STRING_TAG))))],
         reactiveCache := AList.update a
           (AList.update cb (length (heap w)) (get_or [] (reactiveCache w) a))
           (reactiveCache (ensureCache a w))\<rparr>)"
  by (simp add: cachedOrNew_raw [OF assms(1)] assms(2))

lemma cellAt_heap: "heap w = heap w' \<Longrightarrow> cellAt w p = cellAt w' p"
  by (simp add: cellAt_def)

lemma cachedOrNew_view:
  assumes "rawAt w a = Some ob" and "cacheOk w" and "cachedOrNew a cb w = Inr (r, w')"
  shows "\<exists>p h. r = Ref p \<and> cellAt w' p = Some (Proxy a cb h)
           \<and> map_of (get_or [] (reactiveCache w') a) cb = Some p"
proof (cases "map_of (get_or [] (reactiveCache w) a) cb")
  case None
  have e: "Inr (r, w') = cachedOrNew a cb w" using assms(3) by simp
  show ?thesis
    using e unfolding cachedOrNew_miss [OF assms(1) None]
    by (auto simp: cellAt_def get_or_update update_conv')
next
  case (Some p)
  obtain h where h: "cellAt w p = Some (Proxy a cb h)"
    using assms(2) Some unfolding cacheOk_def by blast
  have e: "Inr (r, w') = cachedOrNew a cb w" using assms(3) by simp
  show ?thesis
    using e h Some unfolding cachedOrNew_hit [OF assms(1) Some]
    by (auto simp: ensureCache_get_or cellAt_heap [OF ensureCache_heap])
qed

lemma cachedOrNew_heap:
  assumes "rawAt w a = Some ob" and "cachedOrNew a cb w = Inr (r, w')"
  shows "\<exists>extra. heap w' = heap w @ extra"
proof (cases "map_of (get_or [] (reactiveCache w) a) cb")
  case None
  have e: "Inr (r, w') = cachedOrNew a cb w" using assms(2) by simp
  show ?thesis using e unfolding cachedOrNew_miss [OF assms(1) None] by auto
next
  case (Some p)
  have e: "Inr (r, w') = cachedOrNew a cb w" using assms(2) by simp
  show ?thesis using e unfolding cachedOrNew_hit [OF assms(1) Some]
    by (auto simp: ensureCache_heap)
qed

lemma cachedOrNew_cacheOk:
  assumes "rawAt w a = Some ob" and "cacheOk w" and "cachedOrNew a cb w = Inr (r, w')"
  shows "cacheOk w'"
proof (cases "map_of (get_or [] (reactiveCache w) a) cb")
  case None
  have e: "Inr (r, w') = cachedOrNew a cb w" using assms(3) by simp
  have old: "\<And>a' cb' p. map_of (get_or [] (reactiveCache w) a') cb' = Some p \<Longrightarrow>
      p < length (heap w) \<and> (\<exists>h. heap w ! p = Proxy a' cb' h)"
    using assms(2) by (auto simp: cacheOk_def cellAt_def split: if_splits)
  show ?thesis
    using e unfolding cachedOrNew_miss [OF assms(1) None]
    by (auto simp: cacheOk_def cellAt_def get_or_update update_conv' ensureCache_get_or
        nth_append dest: old split: if_splits)
next
  case (Some p)
  have e: "Inr (r, w') = cachedOrNew a cb w" using assms(3) by simp
  show ?thesis
    using e assms(2) unfolding cachedOrNew_hit [OF assms(1) Some]
    by (auto simp: cacheOk_def ensureCache_get_or cellAt_heap [OF ensureCache_heap])
qed

lemma cachedOrNew_again:
  assumes "rawAt w a = Some ob" and "cachedOrNew a cb w = Inr (r, w')"
  shows "cachedOrNew a cb w' = Inr (r, w')"
proof (cases "map_of (get_or [] (reactiveCache w) a) cb")
  case None
  have e: "Inr (r, w') = cachedOrNew a cb w" using assms(2) by simp
  from e have r: "r = Ref (length (heap w))" and
    w': "w' = (ensureCache a w)\<lparr>heap := heap w @
           [Proxy a cb (handlerFor (tagOr (builtinTag (kind ob))
              (ownOrInherited ob (Sym TO_STRING_TAG))))],
         reactiveCache := AList.update a
           (AList.update cb (length (heap w)) (get_or [] (reactiveCache w) a))
           (reactiveCache (ensureCache a w))\<rparr>"
    unfolding cachedOrNew_miss [OF assms(1) None] by simp_all
  have raw': "rawAt w' a = Some ob"
    using assms(1) by (auto simp: w' rawAt_def cellAt_def nth_append split: if_splits)
  have hit: "map_of (get_or [] (reactiveCache w') a) cb = Some (length (heap w))"
    by (simp add: w' get_or_update update_conv')
  have ens: "ensureCache a w' = w'"
    by (simp add: ensureCache_def w' update_conv')
  show ?thesis by (simp add: cachedOrNew_hit [OF raw' hit] r ens)
next
  case (Some p)
  have e: "Inr (r, w') = cachedOrNew a cb w" using assms(2) by simp
  from e have r: "r = Ref p" and w': "w' = ensureCache a w"
    unfolding cachedOrNew_hit [OF assms(1) Some] by simp_all
  have raw': "rawAt w' a = Some ob" using assms(1) by (simp add: w' ensureCache_rawAt)
  have hit: "map_of (get_or [] (reactiveCache w') a) cb = Some p"
    using Some by (simp add: w' ensureCache_get_or)
  have ens: "ensureCache a w' = w'"
    by (simp add: ensureCache_def w' update_conv')
  show ?thesis by (simp add: cachedOrNew_hit [OF raw' hit] r ens)
qed

lemma rawAt_extend: "heap w' = heap w @ extra \<Longrightarrow> rawAt w a = Some ob \<Longrightarrow> rawAt w' a = Some ob"
  by (auto simp: rawAt_def cellAt_def nth_append split: if_splits option.splits)

lemma cellAt_extend:
  "heap w' = heap w @ extra \<Longrightarrow> cellAt w p = Some c \<Longrightarrow> cellAt w' p = Some c"
  by (auto simp: cellAt_def nth_append split: if_splits)

lemma toRaw_view: "cellAt w p = Some (Proxy a cb h) \<Longrightarrow> toRaw (Ref p) w = Inr (Ref a)"
  by (simp add: toRaw_def readTARGET_def truthy_def)

lemma toRaw_raw:
  "rawAt w a = Some ob \<Longrightarrow> map_of (props ob) (Sym TARGET) = None \<Longrightarrow> toRaw (Ref a) w = Inr (Ref a)"
  by (simp add: toRaw_def readTARGET_raw ownOrInherited_def inherited_sym truthy_def)

lemma toRaw_other:
  "v \<noteq> Undefined \<Longrightarrow> v \<noteq> Null \<Longrightarrow> \<forall>p. v \<noteq> Ref p \<Longrightarrow> toRaw v w = Inr v"
  by (cases v) (simp_all add: toRaw_def readTARGET_def truthy_def)

text \<open>What \<open>reactive\<close> does on a raw object that passes the probe.\<close>

lemma reactive_wrappable:
  assumes "rawAt w a = Some ob" and "map_of (props ob) (Sym TARGET) = None"
    and "canBeMadeReactive (Ref a) w = Inr (True, w)"
  shows "reactive (Ref a) cb w =
     (if map_of (props ob) (Sym SKIP) \<noteq> None then Some (Inr (Ref a, w))
      else Some (cachedOrNew a cb w))"
  using assms(3) unfolding canBeMadeReactive_raw [OF assms(1)]
  by (simp add: reactive_raw [OF assms(1) assms(2)])

lemma canBeMadeReactive_extend:
  assumes "rawAt w a = Some ob" and "rawAt w' a = Some ob"
    and "canBeMadeReactive (Ref a) w = Inr (True, w)"
  shows "canBeMadeReactive (Ref a) w' = Inr (True, w')"
  using assms(3) unfolding canBeMadeReactive_raw [OF assms(1)] canBeMadeReactive_raw [OF assms(2)]
  by simp

lemma reactive_step:
  assumes raw: "rawAt w a = Some ob" and nt: "map_of (props ob) (Sym TARGET) = None"
    and ns: "map_of (props ob) (Sym SKIP) = None"
    and ok: "cacheOk w" and can: "canBeMadeReactive (Ref a) w = Inr (True, w)"
  shows "\<exists>p h w'. reactive (Ref a) c w = Some (Inr (Ref p, w'))
        \<and> cachedOrNew a c w = Inr (Ref p, w')
        \<and> cellAt w' p = Some (Proxy a c h)
        \<and> map_of (get_or [] (reactiveCache w') a) c = Some p
        \<and> rawAt w' a = Some ob \<and> cacheOk w'
        \<and> canBeMadeReactive (Ref a) w' = Inr (True, w')
        \<and> (\<exists>extra. heap w' = heap w @ extra)"
proof -
  obtain r w' where c: "cachedOrNew a c w = Inr (r, w')"
    using cachedOrNew_defined [OF raw] by blast
  have run: "reactive (Ref a) c w = Some (Inr (r, w'))"
    using ns by (simp add: reactive_wrappable [OF raw nt can] c)
  obtain p h where p: "r = Ref p" "cellAt w' p = Some (Proxy a c h)"
      "map_of (get_or [] (reactiveCache w') a) c = Some p"
    using cachedOrNew_view [OF raw ok c] by blast
  obtain extra where ex: "heap w' = heap w @ extra" using cachedOrNew_heap [OF raw c] by blast
  have raw': "rawAt w' a = Some ob" using rawAt_extend [OF ex raw] .
  have ok': "cacheOk w'" using cachedOrNew_cacheOk [OF raw ok c] .
  have can': "canBeMadeReactive (Ref a) w' = Inr (True, w')"
    using canBeMadeReactive_extend [OF raw raw' can] .
  have ex': "\<exists>extra. heap w' = heap w @ extra" using ex by blast
  show ?thesis
    apply (rule exI [of _ p])
    apply (rule exI [of _ h])
    apply (rule exI [of _ w'])
    using run c p raw' ok' can' ex' by simp
qed

lemma reactive_cached:
  assumes raw: "rawAt w a = Some ob" and nt: "map_of (props ob) (Sym TARGET) = None"
    and ns: "map_of (props ob) (Sym SKIP) = None"
    and can: "canBeMadeReactive (Ref a) w = Inr (True, w)"
    and hit: "map_of (get_or [] (reactiveCache w) a) c = Some p"
  shows "reactive (Ref a) c w = Some (Inr (Ref p, w))"
proof -
  have ens: "ensureCache a w = w"
    using hit by (auto simp: ensureCache_def get_or_def split: option.splits)
  show ?thesis
    using ns by (simp add: reactive_wrappable [OF raw nt can] cachedOrNew_hit [OF raw hit] ens)
qed

lemma cachedOrNew_keeps_other:
  assumes raw: "rawAt w a = Some ob" and c: "cachedOrNew a c2 w = Inr (r, w')"
    and hit: "map_of (get_or [] (reactiveCache w) a) c1 = Some p" and ne: "c1 \<noteq> c2"
  shows "map_of (get_or [] (reactiveCache w') a) c1 = Some p"
proof (cases "map_of (get_or [] (reactiveCache w) a) c2")
  case None
  have e: "Inr (r, w') = cachedOrNew a c2 w" using c by simp
  show ?thesis using e hit ne unfolding cachedOrNew_miss [OF raw None]
    by (auto simp: get_or_update update_conv')
next
  case (Some q)
  have e: "Inr (r, w') = cachedOrNew a c2 w" using c by simp
  show ?thesis using e hit unfolding cachedOrNew_hit [OF raw Some]
    by (auto simp: ensureCache_get_or)
qed


text \<open>
  Claim C7 fails on \<open>null\<close> and \<open>undefined\<close>, which are not views: \<open>toRaw\<close> reads
  \<open>value[TARGET]\<close> first, and that read throws a TypeError on them.
\<close>

theorem toRaw_counterexample:
  "toRaw Null (initialWorld []) = Inl TypeError \<and> toRaw Null (initialWorld []) \<noteq> Inr Null"
  by (simp add: toRaw_def readTARGET_def)

text \<open>
  Claim C7, amended. \<open>toRaw(reactive(x, cb))\<close> is \<open>x\<close> for every raw object \<open>x\<close> that passes
  the probe (the view returned is another object than \<open>x\<close> unless \<open>x\<close> is marked), and
  \<open>toRaw\<close> returns every value that is neither a view nor \<open>null\<close> nor \<open>undefined\<close> as it is.
\<close>

theorem toRaw_inverts_reactive:
  assumes "rawAt w a = Some ob" and "map_of (props ob) (Sym TARGET) = None"
    and "cacheOk w" and "canBeMadeReactive (Ref a) w = Inr (True, w)"
  shows "(\<exists>r w'. reactive (Ref a) cb w = Some (Inr (r, w')) \<and> toRaw r w' = Inr (Ref a)
            \<and> (map_of (props ob) (Sym SKIP) = None \<longrightarrow> r \<noteq> Ref a))
       \<and> (\<forall>v. v \<noteq> Undefined \<and> v \<noteq> Null
              \<and> (\<forall>p. v = Ref p \<longrightarrow>
                    (\<exists>ob'. rawAt w p = Some ob' \<and> map_of (props ob') (Sym TARGET) = None))
            \<longrightarrow> toRaw v w = Inr v)"
proof -
  have first: "\<exists>r w'. reactive (Ref a) cb w = Some (Inr (r, w')) \<and> toRaw r w' = Inr (Ref a)
      \<and> (map_of (props ob) (Sym SKIP) = None \<longrightarrow> r \<noteq> Ref a)"
  proof (cases "map_of (props ob) (Sym SKIP) = None")
    case False
    then have run: "reactive (Ref a) cb w = Some (Inr (Ref a, w))"
      by (simp add: reactive_wrappable [OF assms(1,2,4)])
    show ?thesis
      apply (rule exI [of _ "Ref a"])
      apply (rule exI [of _ w])
      using run False toRaw_raw [OF assms(1,2)] by simp
  next
    case True
    obtain p h w' where s: "reactive (Ref a) cb w = Some (Inr (Ref p, w'))"
        "cellAt w' p = Some (Proxy a cb h)" "rawAt w' a = Some ob"
      using reactive_step [OF assms(1,2) True assms(3,4), of cb] by blast
    have "p \<noteq> a" using s(2) cellAt_rawAt [OF s(3)] by auto
    then show ?thesis
      apply -
      apply (rule exI [of _ "Ref p"])
      apply (rule exI [of _ w'])
      using s(1) toRaw_view [OF s(2)] by simp
  qed
  have second: "\<forall>v. v \<noteq> Undefined \<and> v \<noteq> Null
      \<and> (\<forall>p. v = Ref p \<longrightarrow>
            (\<exists>ob'. rawAt w p = Some ob' \<and> map_of (props ob') (Sym TARGET) = None))
      \<longrightarrow> toRaw v w = Inr v"
  proof (intro allI impI)
    fix v
    assume h: "v \<noteq> Undefined \<and> v \<noteq> Null
      \<and> (\<forall>p. v = Ref p \<longrightarrow>
            (\<exists>ob'. rawAt w p = Some ob' \<and> map_of (props ob') (Sym TARGET) = None))"
    show "toRaw v w = Inr v"
    proof (cases "\<exists>p. v = Ref p")
      case True
      then obtain p where v: "v = Ref p" by blast
      then obtain ob' where "rawAt w p = Some ob'" "map_of (props ob') (Sym TARGET) = None"
        using h by blast
      then show ?thesis unfolding v by (rule toRaw_raw)
    next
      case False
      then show ?thesis using h by (simp add: toRaw_other)
    qed
  qed
  from first second show ?thesis by (rule conjI)
qed

theorem toRaw_inverts_reactive_witness:
  "cacheOk (initialWorld [Raw \<lparr>kind = KObject, props = [(Str ''a'', dataProperty (Num 1))], entries = []\<rparr>])
   \<and> canBeMadeReactive (Ref 0) (initialWorld [Raw \<lparr>kind = KObject, props = [(Str ''a'', dataProperty (Num 1))], entries = []\<rparr>]) = Inr (True, (initialWorld [Raw \<lparr>kind = KObject, props = [(Str ''a'', dataProperty (Num 1))], entries = []\<rparr>]))
   \<and> (\<exists>r w'. reactive (Ref 0) 7 (initialWorld [Raw \<lparr>kind = KObject, props = [(Str ''a'', dataProperty (Num 1))], entries = []\<rparr>]) = Some (Inr (r, w')) \<and> toRaw r w' = Inr (Ref 0) \<and> r \<noteq> Ref 0)
   \<and> toRaw (Str ''x'') (initialWorld [Raw \<lparr>kind = KObject, props = [(Str ''a'', dataProperty (Num 1))], entries = []\<rparr>]) = Inr (Str ''x'')"
proof -
  let ?ob = "\<lparr>kind = KObject, props = [(Str ''a'', dataProperty (Num 1))], entries = []\<rparr>"
  let ?w = "initialWorld [Raw ?ob]"
  have r: "rawAt ?w 0 = Some ?ob" by (simp add: rawAt_initial)
  have nt: "map_of (props ?ob) (Sym TARGET) = None" by simp
  have ns: "map_of (props ?ob) (Sym SKIP) = None" by simp
  have ok: "cacheOk ?w" by (rule cacheOk_initial)
  have can: "canBeMadeReactive (Ref 0) ?w = Inr (True, ?w)"
    unfolding canBeMadeReactive_raw [OF r]
    by (simp add: ownOrInherited_def inherited_toStringTag tagOr_def builtinTag_def
        SUPPORTED_RAW_TYPES_def)
  note th = toRaw_inverts_reactive [OF r nt ok can, of 7]
  have t1: "\<exists>r w'. reactive (Ref 0) 7 ?w = Some (Inr (r, w')) \<and> toRaw r w' = Inr (Ref 0)
      \<and> r \<noteq> Ref 0"
    using th ns by blast
  have t2: "toRaw (Str ''x'') ?w = Inr (Str ''x'')"
    using th by simp
  from ok can t1 t2 show ?thesis by (intro conjI)
qed


section \<open>One view for each target and callback\<close>

text \<open>
  Claim C6. On a raw object that passes the probe and is not marked, \<open>reactive\<close> with the
  same callback returns the same view again, and with two different callbacks it returns
  two different views, the first of which is still the one returned for its callback.
\<close>

theorem reactive_is_memoized:
  assumes "rawAt w a = Some ob" and "map_of (props ob) (Sym TARGET) = None"
    and "map_of (props ob) (Sym SKIP) = None"
    and "cacheOk w" and "canBeMadeReactive (Ref a) w = Inr (True, w)"
  shows "(\<exists>r w1. reactive (Ref a) cb w = Some (Inr (r, w1))
            \<and> reactive (Ref a) cb w1 = Some (Inr (r, w1)))
       \<and> (cb1 \<noteq> cb2 \<longrightarrow>
            (\<exists>r1 w1 r2 w2. reactive (Ref a) cb1 w = Some (Inr (r1, w1))
               \<and> reactive (Ref a) cb2 w1 = Some (Inr (r2, w2))
               \<and> r1 \<noteq> r2
               \<and> reactive (Ref a) cb1 w2 = Some (Inr (r1, w2))))"
proof -
  obtain p h w1 where s1: "reactive (Ref a) cb w = Some (Inr (Ref p, w1))"
      "map_of (get_or [] (reactiveCache w1) a) cb = Some p" "rawAt w1 a = Some ob"
      "canBeMadeReactive (Ref a) w1 = Inr (True, w1)"
    using reactive_step [OF assms, of cb] by blast
  have "reactive (Ref a) cb w1 = Some (Inr (Ref p, w1))"
    using reactive_cached [OF s1(3) assms(2,3) s1(4) s1(2)] .
  with s1(1) have same: "\<exists>r w1. reactive (Ref a) cb w = Some (Inr (r, w1))
      \<and> reactive (Ref a) cb w1 = Some (Inr (r, w1))"
    by blast
  have distinct: "cb1 \<noteq> cb2 \<longrightarrow>
      (\<exists>r1 w1 r2 w2. reactive (Ref a) cb1 w = Some (Inr (r1, w1))
         \<and> reactive (Ref a) cb2 w1 = Some (Inr (r2, w2))
         \<and> r1 \<noteq> r2
         \<and> reactive (Ref a) cb1 w2 = Some (Inr (r1, w2)))"
  proof
    assume ne: "cb1 \<noteq> cb2"
    obtain p1 h1 w1 where a1: "reactive (Ref a) cb1 w = Some (Inr (Ref p1, w1))"
        "cellAt w1 p1 = Some (Proxy a cb1 h1)" "rawAt w1 a = Some ob" "cacheOk w1"
        "canBeMadeReactive (Ref a) w1 = Inr (True, w1)"
        "map_of (get_or [] (reactiveCache w1) a) cb1 = Some p1"
      using reactive_step [OF assms, of cb1] by blast
    obtain p2 h2 w2 where a2: "reactive (Ref a) cb2 w1 = Some (Inr (Ref p2, w2))"
        "cachedOrNew a cb2 w1 = Inr (Ref p2, w2)"
        "cellAt w2 p2 = Some (Proxy a cb2 h2)" "rawAt w2 a = Some ob"
        "canBeMadeReactive (Ref a) w2 = Inr (True, w2)"
        and ex: "\<exists>extra. heap w2 = heap w1 @ extra"
      using reactive_step [OF a1(3) assms(2,3) a1(4,5), of cb2] by blast
    have "cellAt w2 p1 = Some (Proxy a cb1 h1)" using ex a1(2) cellAt_extend by blast
    then have d: "Ref p1 \<noteq> Ref p2" using a2(3) ne by auto
    have keep: "map_of (get_or [] (reactiveCache w2) a) cb1 = Some p1"
      using cachedOrNew_keeps_other [OF a1(3) a2(2) a1(6) ne] .
    have last: "reactive (Ref a) cb1 w2 = Some (Inr (Ref p1, w2))"
      using reactive_cached [OF a2(4) assms(2,3) a2(5) keep] .
    show "\<exists>r1 w1 r2 w2. reactive (Ref a) cb1 w = Some (Inr (r1, w1))
         \<and> reactive (Ref a) cb2 w1 = Some (Inr (r2, w2))
         \<and> r1 \<noteq> r2
         \<and> reactive (Ref a) cb1 w2 = Some (Inr (r1, w2))"
      apply (rule exI [of _ "Ref p1"])
      apply (rule exI [of _ w1])
      apply (rule exI [of _ "Ref p2"])
      apply (rule exI [of _ w2])
      using a1(1) a2(1) d last by simp
  qed
  from same distinct show ?thesis by (rule conjI)
qed

theorem reactive_is_memoized_witness:
  "cacheOk (initialWorld [Raw \<lparr>kind = KObject, props = [(Str ''a'', dataProperty (Num 1))], entries = []\<rparr>])
   \<and> (7 :: callback) \<noteq> 8
   \<and> (\<exists>r w1. reactive (Ref 0) 7 (initialWorld [Raw \<lparr>kind = KObject, props = [(Str ''a'', dataProperty (Num 1))], entries = []\<rparr>]) = Some (Inr (r, w1))
        \<and> reactive (Ref 0) 7 w1 = Some (Inr (r, w1)))
   \<and> (\<exists>r1 w1 r2 w2. reactive (Ref 0) 7 (initialWorld [Raw \<lparr>kind = KObject, props = [(Str ''a'', dataProperty (Num 1))], entries = []\<rparr>]) = Some (Inr (r1, w1))
        \<and> reactive (Ref 0) 8 w1 = Some (Inr (r2, w2)) \<and> r1 \<noteq> r2
        \<and> reactive (Ref 0) 7 w2 = Some (Inr (r1, w2)))"
proof -
  let ?ob = "\<lparr>kind = KObject, props = [(Str ''a'', dataProperty (Num 1))], entries = []\<rparr>"
  let ?w = "initialWorld [Raw ?ob]"
  have r: "rawAt ?w 0 = Some ?ob" by (simp add: rawAt_initial)
  have nt: "map_of (props ?ob) (Sym TARGET) = None" by simp
  have ns: "map_of (props ?ob) (Sym SKIP) = None" by simp
  have ok: "cacheOk ?w" by (rule cacheOk_initial)
  have can: "canBeMadeReactive (Ref 0) ?w = Inr (True, ?w)"
    unfolding canBeMadeReactive_raw [OF r]
    by (simp add: ownOrInherited_def inherited_toStringTag tagOr_def builtinTag_def
        SUPPORTED_RAW_TYPES_def)
  have ne: "(7 :: callback) \<noteq> 8" by simp
  note th = reactive_is_memoized [OF r nt ns ok can, of 7 7 8]
  have t1: "\<exists>r w1. reactive (Ref 0) 7 ?w = Some (Inr (r, w1))
      \<and> reactive (Ref 0) 7 w1 = Some (Inr (r, w1))"
    using th by (rule conjunct1)
  have t2: "\<exists>r1 w1 r2 w2. reactive (Ref 0) 7 ?w = Some (Inr (r1, w1))
        \<and> reactive (Ref 0) 8 w1 = Some (Inr (r2, w2)) \<and> r1 \<noteq> r2
        \<and> reactive (Ref 0) 7 w2 = Some (Inr (r1, w2))"
    using th [THEN conjunct2] ne by (rule mp)
  from ok ne t1 t2 show ?thesis by (intro conjI)
qed

section \<open>Writing through a view of a collection\<close>


lemma callNative_has:
  "rawAt w a = Some ob \<Longrightarrow> ''has'' \<in> set (nativeMethods (kind ob)) \<Longrightarrow>
   callNative ''has'' a key u w = Inr (Bool (nativeHas ob key), w)"
  by (simp add: callNative_def)

lemma callNative_get:
  "rawAt w a = Some ob \<Longrightarrow> ''get'' \<in> set (nativeMethods (kind ob)) \<Longrightarrow>
   callNative ''get'' a key u w = Inr (nativeGet ob key, w)"
  by (simp add: callNative_def)

lemma callNative_method:
  "rawAt w a = Some ob \<Longrightarrow> callNative name a key v w = Inr (r, w1) \<Longrightarrow>
   name \<in> set (nativeMethods (kind ob))"
  by (auto simp: callNative_def split: if_splits)

lemma callNative_rawAt:
  "rawAt w a = Some ob \<Longrightarrow> callNative name a key v w = Inr (r, w1) \<Longrightarrow>
   \<exists>ob1. rawAt w1 a = Some ob1 \<and> kind ob1 = kind ob"
  by (auto simp: callNative_def rawAt_putRaw split: if_splits)

lemma nativeMethods_has: "name \<in> set (nativeMethods k) \<Longrightarrow> ''has'' \<in> set (nativeMethods k)"
  by (cases k) (auto simp: nativeMethods_def)

lemma nativeMethods_get: "''set'' \<in> set (nativeMethods k) \<Longrightarrow> ''get'' \<in> set (nativeMethods k)"
  by (cases k) (auto simp: nativeMethods_def)

lemma callNative_set_entries:
  "rawAt w a = Some ob \<Longrightarrow> callNative ''set'' a key v w = Inr (r, w1) \<Longrightarrow>
   rawAt w1 a = Some (ob\<lparr>entries := AList.update key v (entries ob)\<rparr>)"
  by (auto simp: callNative_def rawAt_putRaw split: if_splits)


text \<open>
  Claim C2 fails where it says that setting a Map key to its current value never notifies:
  the comparison is \<open>!==\<close>, and \<open>NaN !== NaN\<close>. (It also fails on the keys \<open>null\<close> and
  \<open>undefined\<close>, on which \<open>toRaw(key)\<close> throws before anything is read or written.)
\<close>

theorem delegateAndNotify_counterexample:
  "nativeGet \<lparr>kind = KMap, props = [], entries = [(Str ''k'', NaN)]\<rparr> (Str ''k'') = NaN
   \<and> map_sum id (snd \<circ> snd)
        (delegateAndNotify idle ''set'' ''get'' 0 (Str ''k'') NaN
          (initialWorld [Raw \<lparr>kind = KMap, props = [], entries = [(Str ''k'', NaN)]\<rparr>], []))
       = Inr [Notified 0 (Str ''k'')]"
  by (simp add: delegateAndNotify_def toRaw_def readTARGET_def callNative_def rawAt_def
      cellAt_def initialWorld_def nativeMethods_def nativeHas_def nativeGet_def putRaw_def
      strictEq_def notifyReactives_def Let_def truthy_def)

text \<open>
  Claim C2, amended. \<open>add\<close>, \<open>set\<close> and \<open>delete\<close> of a view of a Set, Map or WeakMap are
  \<open>delegateAndNotify\<close> with the getter \<open>has\<close>, \<open>get\<close> and \<open>has\<close>. Called with a key that
  \<open>toRaw\<close> accepts and that the native method accepts, it reads presence and the getter's
  value before the native call, then calls \<open>notifyReactives(target, KEYCHANGES)\<close> exactly
  when presence changed and \<open>notifyReactives(target, key)\<close> exactly when the value read
  before is not strictly equal to the new value; setting a Map key to the value it has
  notifies nothing unless the value is \<open>NaN\<close>.
\<close>

theorem delegateAndNotify_notifies:
  assumes "rawAt w target = Some ob"
    and "toRaw key0 w = Inr key"
    and "callNative setterName target key v w = Inr (ret, w1)"
    and "(setterName, getterName) \<in> {(''add'', ''has''), (''delete'', ''has''), (''set'', ''get'')}"
  shows "\<exists>st' ob1. rawAt w1 target = Some ob1
     \<and> delegateAndNotify body setterName getterName target key0 v (w, tr) = Inr (ret, st')
     \<and> st' = (if strictEq (if getterName = ''has'' then Bool (nativeHas ob key)
                            else nativeGet ob key) v
              then id else notifyReactives body target key)
               ((if nativeHas ob key = nativeHas ob1 key then id
                 else notifyReactives body target (Sym KEYCHANGES)) (w1, tr))
     \<and> notifications (snd st') = notifications tr
          @ (if nativeHas ob key = nativeHas ob1 key then [] else [(target, Sym KEYCHANGES)])
          @ (if strictEq (if getterName = ''has'' then Bool (nativeHas ob key)
                          else nativeGet ob key) v
             then [] else [(target, key)])
     \<and> (setterName = ''set'' \<and> nativeHas ob key \<and> nativeGet ob key = v \<and> v \<noteq> NaN
          \<longrightarrow> st' = (w1, tr))
     \<and> (\<forall>t \<in> set COLLECTION_RAWTYPES. \<forall>name \<in> {''add'', ''set'', ''delete''}. \<forall>s.
          map_of (rawTypeToFuncHandlers t) (Str name) = Some s \<longrightarrow>
          s = DelegateAndNotify name (if name = ''set'' then ''get'' else ''has''))"
proof -
  have m: "setterName \<in> set (nativeMethods (kind ob))"
    using callNative_method [OF assms(1,3)] .
  have h: "''has'' \<in> set (nativeMethods (kind ob))" using m by (rule nativeMethods_has)
  obtain ob1 where ob1: "rawAt w1 target = Some ob1" and k1: "kind ob1 = kind ob"
    using callNative_rawAt [OF assms(1,3)] by blast
  have h1: "''has'' \<in> set (nativeMethods (kind ob1))" using h k1 by simp
  define prior where
    "prior = (if getterName = ''has'' then Bool (nativeHas ob key) else nativeGet ob key)"
  have g: "callNative getterName target key Undefined w = Inr (prior, w)"
  proof (cases "getterName = ''has''")
    case True
    then show ?thesis using callNative_has [OF assms(1) h] by (simp add: prior_def)
  next
    case False
    then have s: "setterName = ''set''" "getterName = ''get''" using assms(4) by auto
    have "''get'' \<in> set (nativeMethods (kind ob))" using m s by (simp add: nativeMethods_get)
    then show ?thesis using callNative_get [OF assms(1)] s by (simp add: prior_def)
  qed
  define st1 where "st1 = (if nativeHas ob key = nativeHas ob1 key then (w1, tr)
      else notifyReactives body target (Sym KEYCHANGES) (w1, tr))"
  define st2 where "st2 = (if strictEq prior v then st1 else notifyReactives body target key st1)"
  have run: "delegateAndNotify body setterName getterName target key0 v (w, tr) = Inr (ret, st2)"
    by (simp add: delegateAndNotify_def assms(2) callNative_has [OF assms(1) h] g assms(3)
        callNative_has [OF ob1 h1] strictEq_def st1_def st2_def Let_def)
  have shape: "st2 = (if strictEq prior v then id else notifyReactives body target key)
      ((if nativeHas ob key = nativeHas ob1 key then id
        else notifyReactives body target (Sym KEYCHANGES)) (w1, tr))"
    by (simp add: st2_def st1_def)
  have n1: "notifications (snd st1) = notifications tr
      @ (if nativeHas ob key = nativeHas ob1 key then [] else [(target, Sym KEYCHANGES)])"
    by (simp add: st1_def notifications_notify)
  have n2: "notifications (snd st2) = notifications (snd st1)
      @ (if strictEq prior v then [] else [(target, key)])"
    by (cases st1) (simp add: st2_def notifications_notify)
  have same: "setterName = ''set'' \<and> nativeHas ob key \<and> nativeGet ob key = v \<and> v \<noteq> NaN
      \<longrightarrow> st2 = (w1, tr)"
  proof
    assume a: "setterName = ''set'' \<and> nativeHas ob key \<and> nativeGet ob key = v \<and> v \<noteq> NaN"
    then have gn: "getterName = ''get''" using assms(4) by auto
    have "rawAt w1 target = Some (ob\<lparr>entries := AList.update key v (entries ob)\<rparr>)"
      using callNative_set_entries [OF assms(1)] assms(3) a by blast
    then have "nativeHas ob1 key" using ob1 by (auto simp: nativeHas_def update_conv')
    moreover have "strictEq prior v" using a gn by (simp add: prior_def strictEq_def)
    ultimately show "st2 = (w1, tr)" using a by (simp add: st2_def st1_def)
  qed
  have tab: "\<forall>t \<in> set COLLECTION_RAWTYPES. \<forall>name \<in> {''add'', ''set'', ''delete''}. \<forall>s.
      map_of (rawTypeToFuncHandlers t) (Str name) = Some s \<longrightarrow>
      s = DelegateAndNotify name (if name = ''set'' then ''get'' else ''has'')"
    by (simp add: COLLECTION_RAWTYPES_def rawTypeToFuncHandlers_def)
  show ?thesis
    apply (rule exI [of _ st2])
    apply (rule exI [of _ ob1])
    using ob1 run shape n1 n2 same tab unfolding prior_def by simp
qed

theorem delegateAndNotify_notifies_witness:
  "(\<exists>st'. delegateAndNotify (\<lambda>c w. w) ''set'' ''get'' 0 (Str ''k'') (Num 1)
        (initialWorld [Raw \<lparr>kind = KMap, props = [], entries = []\<rparr>], []) = Inr (Ref 0, st')
      \<and> notifications (snd st') = [(0, Sym KEYCHANGES), (0, Str ''k'')])
   \<and> (\<exists>st'. delegateAndNotify (\<lambda>c w. w) ''set'' ''get'' 0 (Str ''k'') (Num 1)
        (initialWorld [Raw \<lparr>kind = KMap, props = [], entries = [(Str ''k'', Num 1)]\<rparr>], [])
        = Inr (Ref 0, st')
      \<and> notifications (snd st') = [])"
proof -
  let ?e = "\<lparr>kind = KMap, props = [], entries = []\<rparr>"
  let ?f = "\<lparr>kind = KMap, props = [], entries = [(Str ''k'', Num 1)]\<rparr>"
  have re: "rawAt (initialWorld [Raw ?e]) 0 = Some ?e" by (simp add: rawAt_initial)
  have rf: "rawAt (initialWorld [Raw ?f]) 0 = Some ?f" by (simp add: rawAt_initial)
  have k: "\<And>w. toRaw (Str ''k'') w = Inr (Str ''k'')"
    by (simp add: toRaw_def readTARGET_def truthy_def)
  have ce: "callNative ''set'' 0 (Str ''k'') (Num 1) (initialWorld [Raw ?e])
      = Inr (Ref 0, putRaw 0 ?f (initialWorld [Raw ?e]))"
    unfolding callNative_def re by (simp add: nativeMethods_def)
  have cf: "callNative ''set'' 0 (Str ''k'') (Num 1) (initialWorld [Raw ?f])
      = Inr (Ref 0, putRaw 0 ?f (initialWorld [Raw ?f]))"
    unfolding callNative_def rf by (simp add: nativeMethods_def)
  have n: "(''set'', ''get'') \<in> {(''add'', ''has''), (''delete'', ''has''), (''set'', ''get'')}"
    by simp
  have r1: "rawAt (putRaw 0 ?f (initialWorld [Raw ?e])) 0 = Some ?f"
    by (simp add: rawAt_putRaw [OF re])
  from delegateAndNotify_notifies [OF re k ce n, of "\<lambda>c w. w" "[]"]
  obtain st' ob1 where a: "rawAt (putRaw 0 ?f (initialWorld [Raw ?e])) 0 = Some ob1"
      "delegateAndNotify (\<lambda>c w. w) ''set'' ''get'' 0 (Str ''k'') (Num 1) (initialWorld [Raw ?e], [])
        = Inr (Ref 0, st')"
      "notifications (snd st') = notifications []
          @ (if nativeHas ?e (Str ''k'') = nativeHas ob1 (Str ''k'') then []
             else [(0, Sym KEYCHANGES)])
          @ (if strictEq (if ''get'' = ''has'' then Bool (nativeHas ?e (Str ''k''))
                          else nativeGet ?e (Str ''k'')) (Num 1)
             then [] else [(0, Str ''k'')])"
    by blast
  have ob1: "ob1 = ?f" using a(1) r1 by simp
  have t1: "\<exists>st'. delegateAndNotify (\<lambda>c w. w) ''set'' ''get'' 0 (Str ''k'') (Num 1)
        (initialWorld [Raw ?e], []) = Inr (Ref 0, st')
      \<and> notifications (snd st') = [(0, Sym KEYCHANGES), (0, Str ''k'')]"
    apply (rule exI [of _ st'])
    using a(2) a(3) unfolding ob1
    by (simp add: nativeHas_def nativeGet_def strictEq_def notifications_Nil)
  from delegateAndNotify_notifies [OF rf k cf n, of "\<lambda>c w. w" "[]"]
  obtain st'' where b: "delegateAndNotify (\<lambda>c w. w) ''set'' ''get'' 0 (Str ''k'') (Num 1)
        (initialWorld [Raw ?f], []) = Inr (Ref 0, st'')"
      "''set'' = ''set'' \<and> nativeHas ?f (Str ''k'') \<and> nativeGet ?f (Str ''k'') = Num 1
         \<and> Num 1 \<noteq> NaN \<longrightarrow> st'' = (putRaw 0 ?f (initialWorld [Raw ?f]), [])"
    by blast
  have "st'' = (putRaw 0 ?f (initialWorld [Raw ?f]), [])"
    using b(2) by (simp add: nativeHas_def nativeGet_def)
  then have t2: "\<exists>st'. delegateAndNotify (\<lambda>c w. w) ''set'' ''get'' 0 (Str ''k'') (Num 1)
        (initialWorld [Raw ?f], []) = Inr (Ref 0, st')
      \<and> notifications (snd st') = []"
    using b(1) by (simp add: notifications_Nil)
  from t1 t2 show ?thesis by (rule conjI)
qed

end
